theory Spec2Isabelle
  imports Complex_Main "HOL-Library.Word" "HOL-Library.Multiset" "HOL-Library.Monad_Syntax"
begin

unbundle bit_operations_syntax

text \<open>
  Element, node and degree-of-freedom ids are \<open>dof_id_type\<close>, an unsigned integer type
  of 32 bits in the default configuration of the library.
\<close>

type_synonym dof_id_type = "32 word"

section \<open>DofObject: degree-of-freedom indices and extra data\<close>

text \<open>
  Modelled from the spec: the class \<open>DofObject\<close> (\<open>dof_object.h\<close>, \<open>dof_object.C\<close>) is
  not among the sources; only its unit tests (\<open>tests/base/dof_object_test.h\<close>) are. The
  spec gives an entity a compact table of variable groups per system and an optional
  flat array of extra integers. A failed assertion (an index out of the allocated range)
  is the result \<open>None\<close>.
\<close>

record DofObject =
  idx_buf :: "dof_id_type list"
  extra_integers :: "dof_id_type list"

definition invalid_id :: dof_id_type where
  "invalid_id = - 1"

text \<open>
  Modelled from the spec: the packed buffer. The spec does not lay it out; the layout here
  is the one that the buffers of \<open>testJensEftangBug\<close> have. Entry 0 is the number of
  systems and, one header entry per system, the offset of the first system's table;
  entry \<open>s\<close> is the offset of the table of system \<open>s\<close>, which ends where the next one
  starts or at the end of the buffer. A table holds two entries per variable group: the
  number of variables times \<open>ncv_magic\<close> plus the number of components per variable,
  then the DOF base of the group.
\<close>

definition ncv_magic :: nat where
  "ncv_magic = 256"

definition n_systems :: "DofObject \<Rightarrow> nat" where
  "n_systems obj = (case idx_buf obj of [] \<Rightarrow> 0 | hdr # _ \<Rightarrow> unat hdr)"

definition start_idx :: "DofObject \<Rightarrow> nat \<Rightarrow> nat" where
  "start_idx obj s = unat (idx_buf obj ! s)"

definition end_idx :: "DofObject \<Rightarrow> nat \<Rightarrow> nat" where
  "end_idx obj s =
     (if s + 1 < n_systems obj then unat (idx_buf obj ! (s + 1)) else length (idx_buf obj))"

text \<open>
  Modelled from the spec: the table of system \<open>s\<close> as it lies in the buffer, provided the
  system exists and its header entries point into the buffer.
\<close>

definition system_table :: "DofObject \<Rightarrow> nat \<Rightarrow> dof_id_type list option" where
  "system_table obj s =
     (if s < n_systems obj \<and> n_systems obj \<le> length (idx_buf obj) \<and>
         start_idx obj s \<le> end_idx obj s \<and> end_idx obj s \<le> length (idx_buf obj)
      then Some (take (end_idx obj s - start_idx obj s) (drop (start_idx obj s) (idx_buf obj)))
      else None)"

text \<open>
  Modelled from the spec: the variable groups of a table, each as number of variables,
  number of components per variable, and DOF base.
\<close>

fun var_groups :: "dof_id_type list \<Rightarrow> (nat \<times> nat \<times> dof_id_type) list" where
  "var_groups (ncv # base # rest) =
     (unat ncv div ncv_magic, unat ncv mod ncv_magic, base) # var_groups rest"
| "var_groups _ = []"

definition n_var_groups :: "DofObject \<Rightarrow> nat \<Rightarrow> nat option" where
  "n_var_groups obj s = map_option (\<lambda>t. length (var_groups t)) (system_table obj s)"

definition n_vars :: "DofObject \<Rightarrow> nat \<Rightarrow> nat option" where
  "n_vars obj s = map_option (\<lambda>t. sum_list (map fst (var_groups t))) (system_table obj s)"

definition n_vars_group :: "DofObject \<Rightarrow> nat \<Rightarrow> nat \<Rightarrow> nat option" where
  "n_vars_group obj s vg =
     do { t \<leftarrow> system_table obj s;
          if vg < length (var_groups t) then Some (fst (var_groups t ! vg)) else None }"

definition n_comp_group :: "DofObject \<Rightarrow> nat \<Rightarrow> nat \<Rightarrow> nat option" where
  "n_comp_group obj s vg =
     do { t \<leftarrow> system_table obj s;
          if vg < length (var_groups t) then Some (fst (snd (var_groups t ! vg))) else None }"

definition vg_dof_base :: "DofObject \<Rightarrow> nat \<Rightarrow> nat \<Rightarrow> dof_id_type option" where
  "vg_dof_base obj s vg =
     do { t \<leftarrow> system_table obj s;
          if vg < length (var_groups t) then Some (snd (snd (var_groups t ! vg))) else None }"

text \<open>
  Modelled from the spec: the group of a variable and the variable's index within it,
  found by walking the groups of the system in order.
\<close>

fun var_to_vg_and_offset :: "nat list \<Rightarrow> nat \<Rightarrow> nat \<Rightarrow> (nat \<times> nat) option" where
  "var_to_vg_and_offset [] vg var = None"
| "var_to_vg_and_offset (nv # nvs) vg var =
     (if var < nv then Some (vg, var) else var_to_vg_and_offset nvs (Suc vg) (var - nv))"

text \<open>
  Modelled from the spec: \<open>dof_number(system, var, comp)\<close> is the DOF base of the
  variable's group plus the variable's index within the group times the group's number of
  components plus the component, in the arithmetic of \<open>dof_id_type\<close>.
\<close>

definition dof_number :: "DofObject \<Rightarrow> nat \<Rightarrow> nat \<Rightarrow> nat \<Rightarrow> dof_id_type option" where
  "dof_number obj s var component =
     do { t \<leftarrow> system_table obj s;
          (vg, vig) \<leftarrow> var_to_vg_and_offset (map fst (var_groups t)) 0 var;
          n_comp \<leftarrow> n_comp_group obj s vg;
          base \<leftarrow> vg_dof_base obj s vg;
          if component < n_comp then Some (base + of_nat (vig * n_comp + component)) else None }"

definition set_buffer :: "dof_id_type list \<Rightarrow> DofObject \<Rightarrow> DofObject" where
  "set_buffer buf obj = obj\<lparr> idx_buf := buf \<rparr>"

text \<open>
  Modelled from the spec: building the buffer. \<open>pack\<close> writes the header for a list of
  tables and appends the tables; the operations that change the systems keep the tables
  that exist (append-only growth) and never touch the extra integers. A new variable group
  has no components, and its DOF base is the invalid id.
\<close>

fun offsets :: "nat \<Rightarrow> dof_id_type list list \<Rightarrow> dof_id_type list" where
  "offsets off [] = []"
| "offsets off (t # ts) = of_nat off # offsets (off + length t) ts"

definition pack :: "dof_id_type list list \<Rightarrow> dof_id_type list" where
  "pack tables = offsets (length tables) tables @ concat tables"

definition tables :: "DofObject \<Rightarrow> dof_id_type list list" where
  "tables obj =
     map (\<lambda>s. case system_table obj s of None \<Rightarrow> [] | Some t \<Rightarrow> t) [0..<n_systems obj]"

definition set_n_systems :: "nat \<Rightarrow> DofObject \<Rightarrow> DofObject" where
  "set_n_systems ns obj =
     obj\<lparr> idx_buf := pack (take ns (tables obj) @ replicate (ns - n_systems obj) []) \<rparr>"

definition add_system :: "DofObject \<Rightarrow> DofObject" where
  "add_system obj = obj\<lparr> idx_buf := pack (tables obj @ [[]]) \<rparr>"

definition set_n_vars_per_group :: "nat \<Rightarrow> nat list \<Rightarrow> DofObject \<Rightarrow> DofObject option" where
  "set_n_vars_per_group s nvpg obj =
     (if s < n_systems obj then
        Some (obj\<lparr> idx_buf :=
                pack ((tables obj)[s := concat (map (\<lambda>nv. [of_nat (ncv_magic * nv), invalid_id]) nvpg)]) \<rparr>)
      else None)"

definition set_n_comp_group :: "nat \<Rightarrow> nat \<Rightarrow> nat \<Rightarrow> DofObject \<Rightarrow> DofObject option" where
  "set_n_comp_group s vg ncomp obj =
     do { nv \<leftarrow> n_vars_group obj s vg;
          if ncomp < ncv_magic then
            Some (obj\<lparr> idx_buf := (idx_buf obj)[start_idx obj s + 2 * vg := of_nat (ncv_magic * nv + ncomp)] \<rparr>)
          else None }"

definition set_vg_dof_base :: "nat \<Rightarrow> nat \<Rightarrow> dof_id_type \<Rightarrow> DofObject \<Rightarrow> DofObject option" where
  "set_vg_dof_base s vg base obj =
     do { _ \<leftarrow> n_vars_group obj s vg;
          Some (obj\<lparr> idx_buf := (idx_buf obj)[start_idx obj s + 2 * vg + 1 := base] \<rparr>) }"

text \<open>
  Modelled from the spec: the extra integers. \<open>add_extra_integers(n)\<close> makes the array
  \<open>n\<close> slots long, keeps the values of the slots that stay and fills new slots with the
  invalid id. Slot access asserts that the index is in range.
\<close>

definition n_extra_integers :: "DofObject \<Rightarrow> nat" where
  "n_extra_integers obj = length (extra_integers obj)"

definition has_extra_integers :: "DofObject \<Rightarrow> bool" where
  "has_extra_integers obj \<longleftrightarrow> n_extra_integers obj \<noteq> 0"

definition add_extra_integers :: "nat \<Rightarrow> DofObject \<Rightarrow> DofObject" where
  "add_extra_integers n_integers obj =
     obj\<lparr> extra_integers :=
            take n_integers (extra_integers obj) @
            replicate (n_integers - length (extra_integers obj)) invalid_id \<rparr>"

definition set_extra_integer :: "nat \<Rightarrow> dof_id_type \<Rightarrow> DofObject \<Rightarrow> DofObject option" where
  "set_extra_integer index value obj =
     (if index < n_extra_integers obj
      then Some (obj\<lparr> extra_integers := (extra_integers obj)[index := value] \<rparr>)
      else None)"

definition get_extra_integer :: "nat \<Rightarrow> DofObject \<Rightarrow> dof_id_type option" where
  "get_extra_integer index obj =
     (if index < n_extra_integers obj then Some (extra_integers obj ! index) else None)"

text \<open>The test sets slot \<open>i\<close> to the value \<open>vs ! i\<close>, for every \<open>i\<close> below the length of \<open>vs\<close>.\<close>

definition set_extra_integers :: "dof_id_type list \<Rightarrow> DofObject \<Rightarrow> DofObject option" where
  "set_extra_integers vs obj =
     fold (\<lambda>i r. do { o' \<leftarrow> r; set_extra_integer i (vs ! i) o' }) [0..<length vs] (Some obj)"

text \<open>
  Modelled from the spec: \<open>set_extra_datum<T>\<close> and \<open>get_extra_datum<T>\<close> copy the bytes
  of a value of type \<open>T\<close> into and out of the run of slots that starts at the index. A
  value is its object representation, a list of \<open>sizeof(T)\<close> bytes; it takes
  \<open>ceil(sizeof(T)/sizeof(slot))\<close> slots, which the test computes as
  \<open>(sizeof(T)-1)/sizeof(dof_id_type) + 1\<close>, and the whole run must be in range. The bytes
  of a slot are taken least significant first; the results below do not depend on
  the order.
\<close>

definition sizeof_dof_id_type :: nat where
  "sizeof_dof_id_type = 4"

definition slots_for :: "nat \<Rightarrow> nat" where
  "slots_for sizeof_T = (sizeof_T - 1) div sizeof_dof_id_type + 1"

definition slot_bytes :: "dof_id_type \<Rightarrow> 8 word list" where
  "slot_bytes w = [ucast w, ucast (drop_bit 8 w), ucast (drop_bit 16 w), ucast (drop_bit 24 w)]"

definition bytes_slot :: "8 word \<Rightarrow> 8 word \<Rightarrow> 8 word \<Rightarrow> 8 word \<Rightarrow> dof_id_type" where
  "bytes_slot b0 b1 b2 b3 =
     ucast b0 OR push_bit 8 (ucast b1) OR push_bit 16 (ucast b2) OR push_bit 24 (ucast b3)"

definition bytes_of_slots :: "dof_id_type list \<Rightarrow> 8 word list" where
  "bytes_of_slots xs = concat (map slot_bytes xs)"

fun slots_of_bytes :: "8 word list \<Rightarrow> dof_id_type list" where
  "slots_of_bytes (b0 # b1 # b2 # b3 # bs) = bytes_slot b0 b1 b2 b3 # slots_of_bytes bs"
| "slots_of_bytes _ = []"

definition set_extra_datum :: "nat \<Rightarrow> 8 word list \<Rightarrow> DofObject \<Rightarrow> DofObject option" where
  "set_extra_datum index value obj =
     (if value \<noteq> [] \<and> index + slots_for (length value) \<le> n_extra_integers obj then
        (let mem = bytes_of_slots (extra_integers obj);
             pos = sizeof_dof_id_type * index
         in Some (obj\<lparr> extra_integers :=
                         slots_of_bytes (take pos mem @ value @ drop (pos + length value) mem) \<rparr>))
      else None)"

definition get_extra_datum :: "nat \<Rightarrow> nat \<Rightarrow> DofObject \<Rightarrow> 8 word list option" where
  "get_extra_datum index sizeof_T obj =
     (if 0 < sizeof_T \<and> index + slots_for sizeof_T \<le> n_extra_integers obj
      then Some (take sizeof_T (drop (sizeof_dof_id_type * index) (bytes_of_slots (extra_integers obj))))
      else None)"

section \<open>Meshes and elements\<close>

text \<open>
  Elements live in the mesh and are referred to by pointer. Here a pointer is the id of
  the element it points to, \<open>None\<close> is the null pointer, and \<open>elem_ptr\<close> follows a
  pointer. In the program a pointer is null or valid; an id that no element of the mesh
  carries is read as null.
\<close>

record Elem =
  elem_id :: nat
  elem_processor_id :: nat
  elem_level :: nat
  elem_active :: bool
  elem_infinite :: bool
  elem_dim :: nat
  elem_parent :: "nat option"
  elem_children :: "nat list"
  elem_neighbors :: "nat option list"

record MeshBase =
  mesh_elements :: "Elem list"
  mesh_n_processors :: nat

definition elem_ptr :: "MeshBase \<Rightarrow> nat \<Rightarrow> Elem option" where
  "elem_ptr mesh i = find (\<lambda>e. elem_id e = i) (mesh_elements mesh)"

definition n_sides :: "Elem \<Rightarrow> nat" where
  "n_sides e = length (elem_neighbors e)"

definition neighbor_ptr :: "MeshBase \<Rightarrow> Elem \<Rightarrow> nat \<Rightarrow> Elem option" where
  "neighbor_ptr mesh e n =
     (if n < n_sides e then
        (case elem_neighbors e ! n of None \<Rightarrow> None | Some i \<Rightarrow> elem_ptr mesh i)
      else None)"

definition parent_ptr :: "MeshBase \<Rightarrow> Elem \<Rightarrow> Elem option" where
  "parent_ptr mesh e = (case elem_parent e of None \<Rightarrow> None | Some i \<Rightarrow> elem_ptr mesh i)"

definition max_elem_id :: "MeshBase \<Rightarrow> nat" where
  "max_elem_id mesh = fold max (map (\<lambda>e. Suc (elem_id e)) (mesh_elements mesh)) 0"

definition active_local_element_ptr_range :: "MeshBase \<Rightarrow> nat \<Rightarrow> Elem list" where
  "active_local_element_ptr_range mesh pid =
     filter (\<lambda>e. elem_active e \<and> elem_processor_id e = pid) (mesh_elements mesh)"

text \<open>\<open>v[i] += x\<close> on a vector of error values; the index is below the size wherever the
  program does this.\<close>

definition add_error :: "nat \<Rightarrow> real \<Rightarrow> real list \<Rightarrow> real list" where
  "add_error i x v = v[i := v ! i + x]"

section \<open>Jump error estimator (JumpErrorEstimator::estimate\_error)\<close>

text \<open>
  The estimator object: its flags, the significant variables (those with a nonzero
  weight in \<open>error_norm\<close> that are not of the \<open>SCALAR\<close> family), and what the rest of the
  library and the derived class supply. \<open>internal_side_integration\<close> and
  \<open>boundary_side_integration\<close> are virtual; the base class reads their results from the
  members \<open>fine_error\<close> and \<open>coarse_error\<close>. A call is identified by the side being
  integrated, the elements of the fine and the coarse context, and the variable.
  Error values are floating-point numbers in the program and real numbers here.
\<close>

datatype side_kind =
    Face nat
  | Parent_face nat
  | Slit nat nat

record JumpErrorEstimator =
  scale_by_n_flux_faces :: bool
  integrate_slits :: bool
  integrate_boundary_sides :: bool
  n_system_vars :: nat
  significant_var :: "nat \<Rightarrow> bool"
  internal_side_integration :: "side_kind \<Rightarrow> nat \<Rightarrow> nat \<Rightarrow> nat \<Rightarrow> real \<times> real"
  boundary_side_integration :: "bool \<Rightarrow> nat \<Rightarrow> nat \<Rightarrow> nat \<Rightarrow> real option"
  active_family_tree_by_neighbor :: "nat \<Rightarrow> nat \<Rightarrow> nat list"
  slit_candidates :: "nat \<Rightarrow> nat \<Rightarrow> nat list"
  slit_n_points :: "nat \<Rightarrow> nat \<Rightarrow> nat"

text \<open>
  The state of the loops: the two vectors, and the trace of the integrations whose
  result was added to \<open>error_per_cell\<close> (the trace is not in the program; nothing reads
  it).
\<close>

datatype contribution =
    Internal_contribution side_kind nat nat nat real real
  | Boundary_contribution bool nat nat nat real

record jump_state =
  error_per_cell :: "real list"
  n_flux_faces :: "real list"
  contributions :: "contribution list"

text \<open>
  One pass of the loop over the variables after \<open>reinit_sides\<close>: for a significant
  variable, \<open>internal_side_integration\<close> is called, \<open>fine_error\<close> is added to the slot of
  the fine context's element and \<open>coarse_error\<close> to the slot of the coarse context's.
\<close>

definition internal_integrate ::
  "JumpErrorEstimator \<Rightarrow> side_kind \<Rightarrow> nat \<Rightarrow> nat \<Rightarrow> nat \<Rightarrow> jump_state \<Rightarrow> jump_state" where
  "internal_integrate je k fine coarse var s =
     (if significant_var je var then
        (case internal_side_integration je k fine coarse var of
           (fine_error, coarse_error) \<Rightarrow>
             s\<lparr> error_per_cell :=
                  add_error coarse coarse_error (add_error fine fine_error (error_per_cell s)),
                contributions :=
                  contributions s @ [Internal_contribution k fine coarse var fine_error coarse_error] \<rparr>)
      else s)"

definition internal_vars ::
  "JumpErrorEstimator \<Rightarrow> side_kind \<Rightarrow> nat \<Rightarrow> nat \<Rightarrow> jump_state \<Rightarrow> jump_state" where
  "internal_vars je k fine coarse s = fold (internal_integrate je k fine coarse) [0..<n_system_vars je] s"

definition coarse_n_flux_faces_increment :: "Elem \<Rightarrow> Elem \<Rightarrow> real" where
  "coarse_n_flux_faces_increment fine coarse =
     1 / real (2 ^ ((elem_dim coarse - 1) * (elem_level fine - elem_level coarse)))"

definition count_flux_faces :: "JumpErrorEstimator \<Rightarrow> Elem \<Rightarrow> Elem \<Rightarrow> jump_state \<Rightarrow> jump_state" where
  "count_flux_faces je fine coarse s =
     (if scale_by_n_flux_faces je then
        s\<lparr> n_flux_faces :=
             add_error (elem_id coarse) (coarse_n_flux_faces_increment fine coarse)
               (add_error (elem_id fine) 1 (n_flux_faces s)) \<rparr>
      else s)"

definition boundary_integrate ::
  "JumpErrorEstimator \<Rightarrow> bool \<Rightarrow> nat \<Rightarrow> nat \<Rightarrow> nat \<Rightarrow> jump_state \<times> bool \<Rightarrow> jump_state \<times> bool" where
  "boundary_integrate je on_parent e side var sf =
     (if significant_var je var then
        (case boundary_side_integration je on_parent e side var of
           Some fine_error \<Rightarrow>
             ((fst sf)\<lparr> error_per_cell := add_error e fine_error (error_per_cell (fst sf)),
                        contributions :=
                          contributions (fst sf) @ [Boundary_contribution on_parent e side var fine_error] \<rparr>,
              True)
         | None \<Rightarrow> sf)
      else sf)"

definition boundary_side ::
  "JumpErrorEstimator \<Rightarrow> bool \<Rightarrow> Elem \<Rightarrow> nat \<Rightarrow> jump_state \<Rightarrow> jump_state" where
  "boundary_side je on_parent e side s =
     (case fold (boundary_integrate je on_parent (elem_id e) side) [0..<n_system_vars je] (s, False) of
        (s', found_boundary_flux) \<Rightarrow>
          (if scale_by_n_flux_faces je \<and> found_boundary_flux
           then s'\<lparr> n_flux_faces := add_error (elem_id e) 1 (n_flux_faces s') \<rparr>
           else s'))"

text \<open>The estimate on a parent all of whose children are active (AMR builds).\<close>

definition parent_neighbor_step ::
  "JumpErrorEstimator \<Rightarrow> MeshBase \<Rightarrow> Elem \<Rightarrow> nat \<Rightarrow> nat \<Rightarrow> jump_state \<Rightarrow> jump_state" where
  "parent_neighbor_step je mesh parent n_p f_id s =
     (case elem_ptr mesh f_id of
        None \<Rightarrow> s
      | Some f \<Rightarrow>
          (if elem_infinite f then s
           else if elem_level f \<ge> elem_level parent then
             count_flux_faces je f parent
               (internal_vars je (Parent_face n_p) (elem_id f) (elem_id parent) s)
           else s))"

definition parent_side_step ::
  "JumpErrorEstimator \<Rightarrow> MeshBase \<Rightarrow> Elem \<Rightarrow> nat \<Rightarrow> jump_state \<Rightarrow> jump_state" where
  "parent_side_step je mesh parent n_p s =
     (case neighbor_ptr mesh parent n_p of
        Some nb \<Rightarrow>
          fold (parent_neighbor_step je mesh parent n_p)
            (active_family_tree_by_neighbor je (elem_id nb) (elem_id parent)) s
      | None \<Rightarrow>
          (if integrate_boundary_sides je then boundary_side je True parent n_p s else s))"

definition compute_on_parent :: "MeshBase \<Rightarrow> bool \<Rightarrow> Elem \<Rightarrow> Elem option" where
  "compute_on_parent mesh estimate_parent_error e =
     (case parent_ptr mesh e of
        None \<Rightarrow> None
      | Some parent \<Rightarrow>
          (if \<not> estimate_parent_error then None
           else if list_all (\<lambda>c. case elem_ptr mesh c of None \<Rightarrow> True | Some child \<Rightarrow> elem_active child)
                     (elem_children parent)
           then Some parent
           else None))"

definition parent_estimate ::
  "JumpErrorEstimator \<Rightarrow> MeshBase \<Rightarrow> bool \<Rightarrow> Elem \<Rightarrow> jump_state \<Rightarrow> jump_state" where
  "parent_estimate je mesh estimate_parent_error e s =
     (case compute_on_parent mesh estimate_parent_error e of
        None \<Rightarrow> s
      | Some parent \<Rightarrow>
          (if error_per_cell s ! elem_id parent = 0
           then fold (parent_side_step je mesh parent) [0..<n_sides parent] s
           else s))"

text \<open>
  Cases 1 and 2 of the convention at the head of \<open>estimate_error\<close>: the flux jump over
  the side between \<open>e\<close> and its neighbor \<open>f\<close> is computed from \<open>e\<close> when the two are on
  the same level, \<open>f\<close> is active and \<open>e\<close> has the smaller id, or when \<open>f\<close> is coarser.
\<close>

definition case_1_or_2 :: "Elem \<Rightarrow> Elem \<Rightarrow> bool" where
  "case_1_or_2 e f \<longleftrightarrow>
     (elem_active f \<and> elem_level f = elem_level e \<and> elem_id e < elem_id f)
     \<or> elem_level f < elem_level e"

definition slit_side ::
  "JumpErrorEstimator \<Rightarrow> MeshBase \<Rightarrow> Elem \<Rightarrow> nat \<Rightarrow> jump_state \<Rightarrow> jump_state" where
  "slit_side je mesh e n_e s =
     (let candidate_elements = slit_candidates je (elem_id e) n_e in
      if length candidate_elements < 2 then s
      else
        fold (\<lambda>qp. fold (\<lambda>f_ptr s'.
                       case elem_ptr mesh f_ptr of
                         None \<Rightarrow> s'
                       | Some f \<Rightarrow>
                           if elem_id f = elem_id e then s'
                           else internal_vars je (Slit n_e qp) (elem_id e) (elem_id f) s')
                      candidate_elements)
          [0..<slit_n_points je (elem_id e) n_e] s)"

definition side_step ::
  "JumpErrorEstimator \<Rightarrow> MeshBase \<Rightarrow> Elem \<Rightarrow> nat \<Rightarrow> jump_state \<Rightarrow> jump_state" where
  "side_step je mesh e n_e s =
     (case (case neighbor_ptr mesh e n_e of
              None \<Rightarrow> None
            | Some f \<Rightarrow> if elem_infinite f then None else Some f) of
        Some f \<Rightarrow>
          (if case_1_or_2 e f then
             count_flux_faces je e f (internal_vars je (Face n_e) (elem_id e) (elem_id f) s)
           else s)
      | None \<Rightarrow>
          (if integrate_slits je then slit_side je mesh e n_e s
           else if integrate_boundary_sides je then boundary_side je False e n_e s
           else s))"

definition elem_step ::
  "JumpErrorEstimator \<Rightarrow> MeshBase \<Rightarrow> bool \<Rightarrow> Elem \<Rightarrow> jump_state \<Rightarrow> jump_state" where
  "elem_step je mesh estimate_parent_error e s =
     (if elem_infinite e then s
      else fold (side_step je mesh e) [0..<n_sides e]
             (parent_estimate je mesh estimate_parent_error e s))"

definition jump_init :: "JumpErrorEstimator \<Rightarrow> MeshBase \<Rightarrow> jump_state" where
  "jump_init je mesh =
     \<lparr> error_per_cell = replicate (max_elem_id mesh) 0,
       n_flux_faces = (if scale_by_n_flux_faces je then replicate (max_elem_id mesh) 0 else []),
       contributions = [] \<rparr>"

text \<open>The loop over the active elements local to processor \<open>pid\<close>.\<close>

definition local_loop :: "JumpErrorEstimator \<Rightarrow> MeshBase \<Rightarrow> bool \<Rightarrow> nat \<Rightarrow> jump_state" where
  "local_loop je mesh estimate_parent_error pid =
     fold (elem_step je mesh estimate_parent_error)
       (active_local_element_ptr_range mesh pid) (jump_init je mesh)"

text \<open>
  \<open>reduce_error\<close> sums a vector over the processors, each of which has run the same
  loop over its own elements.
\<close>

definition reduce_error :: "nat \<Rightarrow> real list list \<Rightarrow> real list" where
  "reduce_error n vs = map (\<lambda>i. sum_list (map (\<lambda>v. v ! i) vs)) [0..<n]"

definition summed_error :: "JumpErrorEstimator \<Rightarrow> MeshBase \<Rightarrow> bool \<Rightarrow> real list" where
  "summed_error je mesh estimate_parent_error =
     reduce_error (max_elem_id mesh)
       (map (\<lambda>pid. error_per_cell (local_loop je mesh estimate_parent_error pid))
          [0..<mesh_n_processors mesh])"

definition summed_flux_faces :: "JumpErrorEstimator \<Rightarrow> MeshBase \<Rightarrow> bool \<Rightarrow> real list" where
  "summed_flux_faces je mesh estimate_parent_error =
     reduce_error (max_elem_id mesh)
       (map (\<lambda>pid. n_flux_faces (local_loop je mesh estimate_parent_error pid))
          [0..<mesh_n_processors mesh])"

definition JumpErrorEstimator_estimate_error ::
  "JumpErrorEstimator \<Rightarrow> MeshBase \<Rightarrow> bool \<Rightarrow> real list" where
  "JumpErrorEstimator_estimate_error je mesh estimate_parent_error =
     (let rooted = map (\<lambda>x. if x \<noteq> 0 then sqrt x else x)
                     (summed_error je mesh estimate_parent_error)
      in if scale_by_n_flux_faces je then
           map (\<lambda>i. if summed_flux_faces je mesh estimate_parent_error ! i = 0 then rooted ! i
                     else rooted ! i / summed_flux_faces je mesh estimate_parent_error ! i)
             [0..<max_elem_id mesh]
         else rooted)"

text \<open>
  Reading the trace. \<open>face_integrations\<close> lists, in order, the integrations over sides
  between an element and its neighbor (the branch of cases 1 and 2), each as the element,
  its side, the neighbor and the variable.
\<close>

fun face_key :: "contribution \<Rightarrow> (nat \<times> nat \<times> nat \<times> nat) list" where
  "face_key (Internal_contribution (Face n) e f v _ _) = [(e, n, f, v)]"
| "face_key _ = []"

definition face_integrations :: "jump_state \<Rightarrow> (nat \<times> nat \<times> nat \<times> nat) list" where
  "face_integrations s = concat (map face_key (contributions s))"

text \<open>
  The sides that the loop over the sides of an element has to integrate, read off the
  mesh: side \<open>n_e\<close> of \<open>e\<close> when its neighbor \<open>f\<close> is there, is not infinite, and case 1 or
  2 holds, once for every significant variable.
\<close>

definition side_faces ::
  "JumpErrorEstimator \<Rightarrow> MeshBase \<Rightarrow> Elem \<Rightarrow> nat \<Rightarrow> (nat \<times> nat \<times> nat \<times> nat) list" where
  "side_faces je mesh e n_e =
     (case neighbor_ptr mesh e n_e of
        None \<Rightarrow> []
      | Some f \<Rightarrow>
          (if \<not> elem_infinite f \<and> case_1_or_2 e f
           then map (\<lambda>v. (elem_id e, n_e, elem_id f, v)) (filter (significant_var je) [0..<n_system_vars je])
           else []))"

definition elem_faces ::
  "JumpErrorEstimator \<Rightarrow> MeshBase \<Rightarrow> Elem \<Rightarrow> (nat \<times> nat \<times> nat \<times> nat) list" where
  "elem_faces je mesh e =
     (if elem_infinite e then [] else concat (map (side_faces je mesh e) [0..<n_sides e]))"

text \<open>
  The part of one traced integration that went to slot \<open>i\<close>, and the invariant of the
  loops: every slot holds the sum of the parts that went to it, and every traced value is
  what the integration routine returned for that call.
\<close>

fun share :: "nat \<Rightarrow> contribution \<Rightarrow> real" where
  "share i (Internal_contribution k fine coarse v fine_error coarse_error) =
     (if fine = i then fine_error else 0) + (if coarse = i then coarse_error else 0)"
| "share i (Boundary_contribution on_parent e side v fine_error) =
     (if e = i then fine_error else 0)"

fun returned_by :: "JumpErrorEstimator \<Rightarrow> contribution \<Rightarrow> bool" where
  "returned_by je (Internal_contribution k fine coarse v fine_error coarse_error) =
     (significant_var je v \<and> internal_side_integration je k fine coarse v = (fine_error, coarse_error))"
| "returned_by je (Boundary_contribution on_parent e side v fine_error) =
     (significant_var je v \<and> boundary_side_integration je on_parent e side v = Some fine_error)"

definition jump_inv :: "JumpErrorEstimator \<Rightarrow> nat \<Rightarrow> jump_state \<Rightarrow> bool" where
  "jump_inv je n s \<longleftrightarrow>
     length (error_per_cell s) = n \<and>
     (\<forall>i<n. error_per_cell s ! i = sum_list (map (share i) (contributions s))) \<and>
     list_all (returned_by je) (contributions s)"

text \<open>A mesh of two edge elements on one level that share a node, on one processor.\<close>

definition jump_example_mesh :: MeshBase where
  "jump_example_mesh =
     \<lparr> mesh_elements =
         [\<lparr> elem_id = 0, elem_processor_id = 0, elem_level = 0, elem_active = True,
            elem_infinite = False, elem_dim = 1, elem_parent = None, elem_children = [],
            elem_neighbors = [None, Some 1] \<rparr>,
          \<lparr> elem_id = 1, elem_processor_id = 0, elem_level = 0, elem_active = True,
            elem_infinite = False, elem_dim = 1, elem_parent = None, elem_children = [],
            elem_neighbors = [Some 0, None] \<rparr>],
       mesh_n_processors = 1 \<rparr>"

text \<open>
  An estimator with one variable whose side integration weights the jump by the size of
  each element, as the derived estimators do: it returns 1 for the fine and 4 for the
  coarse element.
\<close>

definition jump_example_estimator :: JumpErrorEstimator where
  "jump_example_estimator =
     \<lparr> scale_by_n_flux_faces = False, integrate_slits = False, integrate_boundary_sides = False,
       n_system_vars = 1, significant_var = (\<lambda>_. True),
       internal_side_integration = (\<lambda>_ _ _ _. (1, 4)),
       boundary_side_integration = (\<lambda>_ _ _ _. None),
       active_family_tree_by_neighbor = (\<lambda>_ _. []),
       slit_candidates = (\<lambda>_ _. []),
       slit_n_points = (\<lambda>_ _. 0) \<rparr>"

text \<open>
  The integrations of sides between neighbors in one call, over all processors, read off
  the mesh: every processor runs over its own active elements. \<open>face_share\<close> is what one
  of them adds to slot \<open>i\<close>: \<open>fine_error\<close> if \<open>i\<close> is the element the side is integrated
  from, \<open>coarse_error\<close> if \<open>i\<close> is the neighbor. \<open>face_sum\<close> adds these up, each
  integration taken once.
\<close>

definition integrated_faces ::
  "JumpErrorEstimator \<Rightarrow> MeshBase \<Rightarrow> (nat \<times> nat \<times> nat \<times> nat) list" where
  "integrated_faces je mesh =
     concat (map (\<lambda>pid. concat (map (elem_faces je mesh) (active_local_element_ptr_range mesh pid)))
               [0..<mesh_n_processors mesh])"

definition face_share :: "JumpErrorEstimator \<Rightarrow> nat \<Rightarrow> nat \<times> nat \<times> nat \<times> nat \<Rightarrow> real" where
  "face_share je i k =
     (case k of (e, n_e, f, v) \<Rightarrow>
        (case internal_side_integration je (Face n_e) e f v of
           (fine_error, coarse_error) \<Rightarrow>
             (if e = i then fine_error else 0) + (if f = i then coarse_error else 0)))"

definition face_sum :: "JumpErrorEstimator \<Rightarrow> MeshBase \<Rightarrow> nat \<Rightarrow> real" where
  "face_sum je mesh i = sum_list (map (face_share je i) (integrated_faces je mesh))"

text \<open>
  The other additions to \<open>error_per_cell\<close>: those of the estimate on a parent (the sides
  of the parent against the active neighbors, and the parent's boundary sides), and those
  of the sides of an active element that have no neighbor (slits and boundary sides).
\<close>

fun parent_pass :: "contribution \<Rightarrow> bool" where
  "parent_pass (Internal_contribution (Parent_face n_p) fine coarse v fine_error coarse_error) = True"
| "parent_pass (Internal_contribution k fine coarse v fine_error coarse_error) = False"
| "parent_pass (Boundary_contribution on_parent e side v fine_error) = on_parent"

fun no_neighbor :: "contribution \<Rightarrow> bool" where
  "no_neighbor (Internal_contribution (Slit n_e qp) fine coarse v fine_error coarse_error) = True"
| "no_neighbor (Internal_contribution k fine coarse v fine_error coarse_error) = False"
| "no_neighbor (Boundary_contribution on_parent e side v fine_error) = (\<not> on_parent)"

definition parent_pass_sum :: "JumpErrorEstimator \<Rightarrow> MeshBase \<Rightarrow> bool \<Rightarrow> nat \<Rightarrow> real" where
  "parent_pass_sum je mesh estimate_parent_error i =
     (\<Sum>pid\<leftarrow>[0..<mesh_n_processors mesh].
        \<Sum>c\<leftarrow>filter parent_pass (contributions (local_loop je mesh estimate_parent_error pid)).
          share i c)"

definition no_neighbor_sum :: "JumpErrorEstimator \<Rightarrow> MeshBase \<Rightarrow> bool \<Rightarrow> nat \<Rightarrow> real" where
  "no_neighbor_sum je mesh estimate_parent_error i =
     (\<Sum>pid\<leftarrow>[0..<mesh_n_processors mesh].
        \<Sum>c\<leftarrow>filter no_neighbor (contributions (local_loop je mesh estimate_parent_error pid)).
          share i c)"

text \<open>
  A mesh with a hanging node, on one processor: the edge elements 0 and 1 are on level
  0 and share a node; element 1 is refined into the active children 2 and 3, so the
  neighbor of element 0 on its side 1 is the inactive element 1, and the neighbor of
  element 2 on its side 0 is the coarser element 0.
\<close>

definition jump_hanging_mesh :: MeshBase where
  "jump_hanging_mesh =
     \<lparr> mesh_elements =
         [\<lparr> elem_id = 0, elem_processor_id = 0, elem_level = 0, elem_active = True,
            elem_infinite = False, elem_dim = 1, elem_parent = None, elem_children = [],
            elem_neighbors = [None, Some 1] \<rparr>,
          \<lparr> elem_id = 1, elem_processor_id = 0, elem_level = 0, elem_active = False,
            elem_infinite = False, elem_dim = 1, elem_parent = None, elem_children = [2, 3],
            elem_neighbors = [Some 0, None] \<rparr>,
          \<lparr> elem_id = 2, elem_processor_id = 0, elem_level = 1, elem_active = True,
            elem_infinite = False, elem_dim = 1, elem_parent = Some 1, elem_children = [],
            elem_neighbors = [Some 0, Some 3] \<rparr>,
          \<lparr> elem_id = 3, elem_processor_id = 0, elem_level = 1, elem_active = True,
            elem_infinite = False, elem_dim = 1, elem_parent = Some 1, elem_children = [],
            elem_neighbors = [Some 2, None] \<rparr>],
       mesh_n_processors = 1 \<rparr>"

text \<open>
  An estimator with one variable. The integration of a side between neighbors returns 1
  for the fine and 4 for the coarse element, the integration of a parent's side 16 and
  64. The active family of element 0 is element 0 itself.
\<close>

definition jump_hanging_estimator :: JumpErrorEstimator where
  "jump_hanging_estimator =
     \<lparr> scale_by_n_flux_faces = False, integrate_slits = False, integrate_boundary_sides = False,
       n_system_vars = 1, significant_var = (\<lambda>_. True),
       internal_side_integration =
         (\<lambda>k _ _ _. case k of Face _ \<Rightarrow> (1, 4) | Parent_face _ \<Rightarrow> (16, 64) | Slit _ _ \<Rightarrow> (0, 0)),
       boundary_side_integration = (\<lambda>_ _ _ _. None),
       active_family_tree_by_neighbor = (\<lambda>nb _. if nb = 0 then [0] else []),
       slit_candidates = (\<lambda>_ _. []),
       slit_n_points = (\<lambda>_ _. 0) \<rparr>"

section \<open>Adjoint refinement estimator: element indicators\<close>

text \<open>
  What the two loops at the end of \<open>AdjointRefinementEstimator::estimate_error\<close> read,
  on the refined mesh: the number of h refinements, the QoI set (membership and weight),
  the nodes of each element, the point neighbors of a node (\<open>find_point_neighbors\<close>, an
  \<open>Elem\<close> method that is not among the sources), the DOF indices of each element, and the
  localized residual and adjoint vectors. Elements and nodes are named by their ids.
\<close>

record AdjointRefinementEstimator =
  number_h_refinements :: nat
  n_qois :: nat
  qoi_set_has_index :: "nat \<Rightarrow> bool"
  qoi_set_weight :: "nat \<Rightarrow> real"
  node_ref_range :: "nat \<Rightarrow> nat list"
  find_point_neighbors :: "nat \<Rightarrow> nat \<Rightarrow> nat list"
  dof_indices :: "nat \<Rightarrow> nat list"
  localized_projected_residual :: "nat \<Rightarrow> real"
  localized_adjoint_solution :: "nat \<Rightarrow> nat \<Rightarrow> real"

text \<open>
  Going up \<open>number_h_refinements\<close> levels to the coarse parent; \<open>None\<close> when an element
  on the way has no parent, where the program asserts.
\<close>

fun coarse_parent :: "MeshBase \<Rightarrow> nat \<Rightarrow> Elem \<Rightarrow> Elem option" where
  "coarse_parent mesh 0 coarse = Some coarse"
| "coarse_parent mesh (Suc j) coarse =
     (case parent_ptr mesh coarse of
        None \<Rightarrow> None
      | Some p \<Rightarrow> coarse_parent mesh j p)"

text \<open>
  The construction of \<open>shared_element_count\<close>: for every node of an active local element
  not dealt with before, the number of distinct coarse parents of the elements around the
  node.
\<close>

definition add_coarse_neighbor ::
  "AdjointRefinementEstimator \<Rightarrow> MeshBase \<Rightarrow> nat \<Rightarrow> nat list option \<Rightarrow> nat list option" where
  "add_coarse_neighbor are mesh fine_elem r =
     (case r of
        None \<Rightarrow> None
      | Some coarse_grid_neighbors \<Rightarrow>
          (case elem_ptr mesh fine_elem of
             None \<Rightarrow> None
           | Some fe \<Rightarrow>
               (case coarse_parent mesh (number_h_refinements are) fe of
                  None \<Rightarrow> None
                | Some coarse_elem \<Rightarrow>
                    (if elem_id coarse_elem \<in> set coarse_grid_neighbors
                     then Some coarse_grid_neighbors
                     else Some (coarse_grid_neighbors @ [elem_id coarse_elem])))))"

definition count_node ::
  "AdjointRefinementEstimator \<Rightarrow> MeshBase \<Rightarrow> Elem \<Rightarrow> nat
     \<Rightarrow> ((nat \<rightharpoonup> nat) \<times> nat set) option \<Rightarrow> ((nat \<rightharpoonup> nat) \<times> nat set) option" where
  "count_node are mesh elem node_id r =
     (case r of
        None \<Rightarrow> None
      | Some (shared_element_count, processed_node_ids) \<Rightarrow>
          (if node_id \<in> processed_node_ids then r
           else
             (case fold (add_coarse_neighbor are mesh)
                     (find_point_neighbors are (elem_id elem) node_id) (Some []) of
                None \<Rightarrow> None
              | Some coarse_grid_neighbors \<Rightarrow>
                  Some (shared_element_count(node_id \<mapsto> length coarse_grid_neighbors),
                        insert node_id processed_node_ids))))"

definition build_shared_element_count ::
  "AdjointRefinementEstimator \<Rightarrow> MeshBase \<Rightarrow> nat \<Rightarrow> (nat \<rightharpoonup> nat) option" where
  "build_shared_element_count are mesh pid =
     map_option fst
       (fold (\<lambda>elem. fold (count_node are mesh elem) (node_ref_range are (elem_id elem)))
          (active_local_element_ptr_range mesh pid) (Some (Map.empty, {})))"

text \<open>
  The loop over the QoIs and the active local elements. The contribution of an element is
  the dot product of residual and adjoint over the element's DOF indices, times the weight
  of the QoI; its absolute value is added to the slot of the coarse parent. The map
  \<open>shared_element_count\<close> built above is not read here, nor anywhere else in the
  function.
\<close>

definition local_contribution :: "AdjointRefinementEstimator \<Rightarrow> nat \<Rightarrow> Elem \<Rightarrow> real" where
  "local_contribution are i elem =
     (\<Sum>dof\<leftarrow>dof_indices are (elem_id elem).
         localized_projected_residual are dof * localized_adjoint_solution are i dof)
     * qoi_set_weight are i"

definition indicator_elem ::
  "AdjointRefinementEstimator \<Rightarrow> MeshBase \<Rightarrow> nat \<Rightarrow> Elem \<Rightarrow> real list option \<Rightarrow> real list option" where
  "indicator_elem are mesh i elem r =
     (case r of
        None \<Rightarrow> None
      | Some error_vector \<Rightarrow>
          (case coarse_parent mesh (number_h_refinements are) elem of
             None \<Rightarrow> None
           | Some coarse \<Rightarrow>
               Some (add_error (elem_id coarse) \<bar>local_contribution are i elem\<bar> error_vector)))"

definition indicator_qoi ::
  "AdjointRefinementEstimator \<Rightarrow> MeshBase \<Rightarrow> nat \<Rightarrow> nat \<Rightarrow> real list option \<Rightarrow> real list option" where
  "indicator_qoi are mesh pid i r =
     (if qoi_set_has_index are i
      then fold (indicator_elem are mesh i) (active_local_element_ptr_range mesh pid) r
      else r)"

text \<open>
  \<open>error_per_cell\<close> was sized and zeroed with \<open>max_elem_id\<close> of the mesh before the
  refinement, \<open>n_coarse\<close> here.
\<close>

definition element_indicators ::
  "AdjointRefinementEstimator \<Rightarrow> MeshBase \<Rightarrow> nat \<Rightarrow> nat \<Rightarrow> real list option" where
  "element_indicators are mesh n_coarse pid =
     fold (indicator_qoi are mesh pid) [0..<n_qois are] (Some (replicate n_coarse 0))"

text \<open>
  Two coarse edge elements 0 and 1 on the nodes 0, 1, 2, refined once: element 0 has the
  children 2 and 3, element 1 the children 4 and 5; the new nodes are 3 and 4. One
  variable with one DOF per node, numbered like the nodes. Residual and adjoint are 1 at
  every DOF, the one QoI has weight 1.
\<close>

definition adjoint_example_mesh :: MeshBase where
  "adjoint_example_mesh =
     \<lparr> mesh_elements =
         [\<lparr> elem_id = 0, elem_processor_id = 0, elem_level = 0, elem_active = False,
            elem_infinite = False, elem_dim = 1, elem_parent = None, elem_children = [2, 3],
            elem_neighbors = [None, Some 1] \<rparr>,
          \<lparr> elem_id = 1, elem_processor_id = 0, elem_level = 0, elem_active = False,
            elem_infinite = False, elem_dim = 1, elem_parent = None, elem_children = [4, 5],
            elem_neighbors = [Some 0, None] \<rparr>,
          \<lparr> elem_id = 2, elem_processor_id = 0, elem_level = 1, elem_active = True,
            elem_infinite = False, elem_dim = 1, elem_parent = Some 0, elem_children = [],
            elem_neighbors = [None, Some 3] \<rparr>,
          \<lparr> elem_id = 3, elem_processor_id = 0, elem_level = 1, elem_active = True,
            elem_infinite = False, elem_dim = 1, elem_parent = Some 0, elem_children = [],
            elem_neighbors = [Some 2, Some 4] \<rparr>,
          \<lparr> elem_id = 4, elem_processor_id = 0, elem_level = 1, elem_active = True,
            elem_infinite = False, elem_dim = 1, elem_parent = Some 1, elem_children = [],
            elem_neighbors = [Some 3, Some 5] \<rparr>,
          \<lparr> elem_id = 5, elem_processor_id = 0, elem_level = 1, elem_active = True,
            elem_infinite = False, elem_dim = 1, elem_parent = Some 1, elem_children = [],
            elem_neighbors = [Some 4, None] \<rparr>],
       mesh_n_processors = 1 \<rparr>"

definition adjoint_example_nodes :: "nat \<Rightarrow> nat list" where
  "adjoint_example_nodes e =
     (if e = 0 then [0, 1] else if e = 1 then [1, 2] else if e = 2 then [0, 3]
      else if e = 3 then [3, 1] else if e = 4 then [1, 4] else if e = 5 then [4, 2] else [])"

definition adjoint_example :: AdjointRefinementEstimator where
  "adjoint_example =
     \<lparr> number_h_refinements = 1, n_qois = 1,
       qoi_set_has_index = (\<lambda>_. True), qoi_set_weight = (\<lambda>_. 1),
       node_ref_range = adjoint_example_nodes,
       find_point_neighbors =
         (\<lambda>_ node. filter (\<lambda>e. node \<in> set (adjoint_example_nodes e)) [2, 3, 4, 5]),
       dof_indices = adjoint_example_nodes,
       localized_projected_residual = (\<lambda>_. 1),
       localized_adjoint_solution = (\<lambda>_ _. 1) \<rparr>"

section \<open>Pyramid side keys (src/geom/cell\_pyramid.C)\<close>

text \<open>
  A pyramid element, as far as \<open>key\<close> reads it: the global ids of its nodes, by local
  node index. \<open>node_id\<close> asserts that the local index is below \<open>n_nodes()\<close>.
\<close>

record Pyramid =
  pyramid_nodes :: "dof_id_type list"

datatype key_error =
    Invalid_side nat
  | Node_index_out_of_range nat

definition node_id :: "Pyramid \<Rightarrow> nat \<Rightarrow> key_error + dof_id_type" where
  "node_id e i =
     (if i < length (pyramid_nodes e) then Inr (pyramid_nodes e ! i)
      else Inl (Node_index_out_of_range i))"

text \<open>
  Modelled from the spec: \<open>Elem::compute_key\<close> (declared in \<open>elem.h\<close>) is not among the
  sources. The spec asks for an order-independent key of a side's node set: the ids are
  put in increasing order and hashed. The hash function of the utility library
  (\<open>hashword\<close>) is a parameter.
\<close>

definition compute_key3 ::
  "(dof_id_type list \<Rightarrow> dof_id_type) \<Rightarrow> dof_id_type \<Rightarrow> dof_id_type \<Rightarrow> dof_id_type \<Rightarrow> dof_id_type" where
  "compute_key3 hashword n0 n1 n2 = hashword (sort [n0, n1, n2])"

definition compute_key4 ::
  "(dof_id_type list \<Rightarrow> dof_id_type) \<Rightarrow> dof_id_type \<Rightarrow> dof_id_type \<Rightarrow> dof_id_type \<Rightarrow> dof_id_type
     \<Rightarrow> dof_id_type" where
  "compute_key4 hashword n0 n1 n2 n3 = hashword (sort [n0, n1, n2, n3])"

text \<open>
  \<open>Pyramid::key\<close>. The table \<open>Pyramid5::side_nodes_map\<close> is defined in
  \<open>cell_pyramid5.C\<close>, which is not among the sources, and is the parameter
  \<open>side_nodes_map\<close> (side, position within the side) here.
\<close>

definition key ::
  "(dof_id_type list \<Rightarrow> dof_id_type) \<Rightarrow> (nat \<Rightarrow> nat \<Rightarrow> nat) \<Rightarrow> Pyramid \<Rightarrow> nat
     \<Rightarrow> key_error + dof_id_type" where
  "key hashword side_nodes_map e s =
     (if s = 0 \<or> s = 1 \<or> s = 2 \<or> s = 3 then
        (case node_id e (side_nodes_map s 0) of Inl err \<Rightarrow> Inl err | Inr n0 \<Rightarrow>
         case node_id e (side_nodes_map s 1) of Inl err \<Rightarrow> Inl err | Inr n1 \<Rightarrow>
         case node_id e (side_nodes_map s 2) of Inl err \<Rightarrow> Inl err | Inr n2 \<Rightarrow>
           Inr (compute_key3 hashword n0 n1 n2))
      else if s = 4 then
        (case node_id e (side_nodes_map s 0) of Inl err \<Rightarrow> Inl err | Inr n0 \<Rightarrow>
         case node_id e (side_nodes_map s 1) of Inl err \<Rightarrow> Inl err | Inr n1 \<Rightarrow>
         case node_id e (side_nodes_map s 2) of Inl err \<Rightarrow> Inl err | Inr n2 \<Rightarrow>
         case node_id e (side_nodes_map s 3) of Inl err \<Rightarrow> Inl err | Inr n3 \<Rightarrow>
           Inr (compute_key4 hashword n0 n1 n2 n3))
      else Inl (Invalid_side s))"

text \<open>\<open>Pyramid::low_order_key\<close> has the same body.\<close>

definition low_order_key ::
  "(dof_id_type list \<Rightarrow> dof_id_type) \<Rightarrow> (nat \<Rightarrow> nat \<Rightarrow> nat) \<Rightarrow> Pyramid \<Rightarrow> nat
     \<Rightarrow> key_error + dof_id_type" where
  "low_order_key hashword side_nodes_map e s =
     (if s = 0 \<or> s = 1 \<or> s = 2 \<or> s = 3 then
        (case node_id e (side_nodes_map s 0) of Inl err \<Rightarrow> Inl err | Inr n0 \<Rightarrow>
         case node_id e (side_nodes_map s 1) of Inl err \<Rightarrow> Inl err | Inr n1 \<Rightarrow>
         case node_id e (side_nodes_map s 2) of Inl err \<Rightarrow> Inl err | Inr n2 \<Rightarrow>
           Inr (compute_key3 hashword n0 n1 n2))
      else if s = 4 then
        (case node_id e (side_nodes_map s 0) of Inl err \<Rightarrow> Inl err | Inr n0 \<Rightarrow>
         case node_id e (side_nodes_map s 1) of Inl err \<Rightarrow> Inl err | Inr n1 \<Rightarrow>
         case node_id e (side_nodes_map s 2) of Inl err \<Rightarrow> Inl err | Inr n2 \<Rightarrow>
         case node_id e (side_nodes_map s 3) of Inl err \<Rightarrow> Inl err | Inr n3 \<Rightarrow>
           Inr (compute_key4 hashword n0 n1 n2 n3))
      else Inl (Invalid_side s))"

text \<open>
  \<open>Pyramid::side_ptr\<close>, reduced to the node ids of the face it builds: a \<open>Tri3\<close> (three
  nodes) for sides 0 to 3, a \<open>Quad4\<close> (four nodes) for side 4, node \<open>n\<close> of the face being
  node \<open>side_nodes_map[i][n]\<close> of the pyramid.
\<close>

fun face_nodes :: "Pyramid \<Rightarrow> nat list \<Rightarrow> key_error + dof_id_type list" where
  "face_nodes e [] = Inr []"
| "face_nodes e (i # is) =
     (case node_id e i of
        Inl err \<Rightarrow> Inl err
      | Inr n \<Rightarrow> (case face_nodes e is of Inl err \<Rightarrow> Inl err | Inr ns \<Rightarrow> Inr (n # ns)))"

definition side_ptr :: "(nat \<Rightarrow> nat \<Rightarrow> nat) \<Rightarrow> Pyramid \<Rightarrow> nat \<Rightarrow> key_error + dof_id_type list" where
  "side_ptr side_nodes_map e i =
     (if i = 0 \<or> i = 1 \<or> i = 2 \<or> i = 3 then face_nodes e (map (side_nodes_map i) [0, 1, 2])
      else if i = 4 then face_nodes e (map (side_nodes_map i) [0, 1, 2, 3])
      else Inl (Invalid_side i))"

section \<open>Adjoint refinement estimator: settings and vectors over a call\<close>

text \<open>
  The state that \<open>AdjointRefinementEstimator::estimate_error\<close> saves, changes and
  restores: of the system, the two projection settings, the preservation setting of each
  named vector, the solution, the current local solution and the named vectors; of the
  mesh, the partitioner (a null pointer is \<open>None\<close>) and the renumbering flag; the caller's
  solution vector, if one is passed that is neither the system's solution nor one of its
  named vectors; the two outputs; and
  everything else (elements, DOF numbering, matrices, physics), on which only the rest of
  the library acts.
\<close>

record ('v, 'p, 'm) estimation_state =
  sys_project_solution_on_reinit :: bool
  sys_project_with_constraints :: bool
  sys_vector_preservation :: "string \<Rightarrow> bool"
  sys_solution :: 'v
  sys_current_local_solution :: 'v
  sys_vectors :: "string \<rightharpoonup> 'v"
  sys_adjoint_already_solved :: bool
  mesh_partitioner :: "'p option"
  mesh_allow_renumbering :: bool
  solution_vector :: "'v option"
  out_error_per_cell :: "real list"
  out_computed_global_QoI_errors :: "real list"
  other_state :: 'm

text \<open>
  What the estimator is configured with and what it calls in the rest of the library (none
  of it among the sources): the solves, the assembly, the refinement and coarsening steps
  (each followed by \<open>es.reinit()\<close>), the vector operations, the loops of the element
  indicators (modelled in detail above) and the reduction over processors. Each call may
  change the state in any way.
\<close>

record ('v, 'p, 'm) estimator_calls =
  cfg_number_h_refinements :: nat
  cfg_number_p_refinements :: nat
  cfg_n_qois :: nat
  cfg_qoi_set_has_index :: "nat \<Rightarrow> bool"
  cfg_residual_evaluation_physics :: bool
  cfg_adjoint_evaluation_physics :: bool
  has_adjoint_dirichlet_boundaries :: "nat \<Rightarrow> bool"
  adjoint_vector_name :: "nat \<Rightarrow> string"
  push_physics :: "bool \<Rightarrow> ('v, 'p, 'm) estimation_state \<Rightarrow> ('v, 'p, 'm) estimation_state"
  pop_physics :: "('v, 'p, 'm) estimation_state \<Rightarrow> ('v, 'p, 'm) estimation_state"
  adjoint_solve :: "('v, 'p, 'm) estimation_state \<Rightarrow> ('v, 'p, 'm) estimation_state"
  assembly :: "('v, 'p, 'm) estimation_state \<Rightarrow> ('v, 'p, 'm) estimation_state"
  update :: "('v, 'p, 'm) estimation_state \<Rightarrow> ('v, 'p, 'm) estimation_state"
  uniformly_refine :: "('v, 'p, 'm) estimation_state \<Rightarrow> ('v, 'p, 'm) estimation_state"
  uniformly_p_refine :: "('v, 'p, 'm) estimation_state \<Rightarrow> ('v, 'p, 'm) estimation_state"
  uniformly_coarsen :: "('v, 'p, 'm) estimation_state \<Rightarrow> ('v, 'p, 'm) estimation_state"
  uniformly_p_coarsen :: "('v, 'p, 'm) estimation_state \<Rightarrow> ('v, 'p, 'm) estimation_state"
  mesh_max_elem_id :: "('v, 'p, 'm) estimation_state \<Rightarrow> nat"
  new_vector :: "('v, 'p, 'm) estimation_state \<Rightarrow> 'v"
  init_like :: "'v \<Rightarrow> 'v"
  enforce_adjoint_constraints_exactly :: "('v, 'p, 'm) estimation_state \<Rightarrow> nat \<Rightarrow> 'v \<Rightarrow> 'v"
  vector_minus :: "'v \<Rightarrow> 'v \<Rightarrow> 'v"
  vector_plus :: "'v \<Rightarrow> 'v \<Rightarrow> 'v"
  vector_dot :: "'v \<Rightarrow> 'v \<Rightarrow> real"
  compute_indicators :: "('v, 'p, 'm) estimation_state \<Rightarrow> real list"
  reduce_error_vector :: "real list \<Rightarrow> real list"

text \<open>Named vectors of the system. \<open>get_vector\<close> on a name that is absent is a fatal error.\<close>

definition get_vector :: "('v, 'p, 'm) estimation_state \<Rightarrow> string \<Rightarrow> 'v option" where
  "get_vector s name = sys_vectors s name"

definition set_vector ::
  "string \<Rightarrow> 'v \<Rightarrow> ('v, 'p, 'm) estimation_state \<Rightarrow> ('v, 'p, 'm) estimation_state" where
  "set_vector name v s = s\<lparr> sys_vectors := (sys_vectors s)(name \<mapsto> v) \<rparr>"

definition add_vector ::
  "('v, 'p, 'm) estimator_calls \<Rightarrow> string \<Rightarrow> ('v, 'p, 'm) estimation_state \<Rightarrow> ('v, 'p, 'm) estimation_state" where
  "add_vector c name s =
     (case sys_vectors s name of
        Some _ \<Rightarrow> s
      | None \<Rightarrow>
          s\<lparr> sys_vectors := (sys_vectors s)(name \<mapsto> new_vector c s),
             sys_vector_preservation := (sys_vector_preservation s)(name := True) \<rparr>)"

definition remove_vector ::
  "string \<Rightarrow> ('v, 'p, 'm) estimation_state \<Rightarrow> ('v, 'p, 'm) estimation_state" where
  "remove_vector name s =
     (case sys_vectors s name of
        None \<Rightarrow> s
      | Some _ \<Rightarrow>
          s\<lparr> sys_vectors := (sys_vectors s)(name := None),
             sys_vector_preservation := (sys_vector_preservation s)(name := False) \<rparr>)"

definition set_vector_preservation ::
  "string \<Rightarrow> bool \<Rightarrow> ('v, 'p, 'm) estimation_state \<Rightarrow> ('v, 'p, 'm) estimation_state" where
  "set_vector_preservation name b s =
     s\<lparr> sys_vector_preservation := (sys_vector_preservation s)(name := b) \<rparr>"

text \<open>The names \<open>"adjoint_lift_function" << j\<close>: \<open>j\<close> printed in decimal.\<close>

function string_of_nat :: "nat \<Rightarrow> string" where
  "string_of_nat n =
     (if n < 10 then [char_of (48 + n)]
      else string_of_nat (n div 10) @ [char_of (48 + n mod 10)])"
  by pat_completeness auto
termination
  by (relation "measure id") auto

definition liftfunc_name :: "nat \<Rightarrow> string" where
  "liftfunc_name j = ''adjoint_lift_function'' @ string_of_nat j"

text \<open>Running a step with other physics pushed, when a physics pointer is set.\<close>

definition with_physics ::
  "('v, 'p, 'm) estimator_calls \<Rightarrow> bool \<Rightarrow> bool
     \<Rightarrow> (('v, 'p, 'm) estimation_state \<Rightarrow> ('v, 'p, 'm) estimation_state)
     \<Rightarrow> ('v, 'p, 'm) estimation_state \<Rightarrow> ('v, 'p, 'm) estimation_state" where
  "with_physics c physics_set adjoint_physics step s =
     (if physics_set then pop_physics c (step (push_physics c adjoint_physics s)) else step s)"

text \<open>Lines 122 to 134: the adjoint solve on the coarse space, unless already done.\<close>

definition coarse_adjoint_solve ::
  "('v, 'p, 'm) estimator_calls \<Rightarrow> ('v, 'p, 'm) estimation_state \<Rightarrow> ('v, 'p, 'm) estimation_state" where
  "coarse_adjoint_solve c s =
     (if \<not> sys_adjoint_already_solved s
      then with_physics c (cfg_adjoint_evaluation_physics c) True (adjoint_solve c) s
      else s)"

text \<open>
  Lines 139 to 188: for every QoI of the set with heterogeneous adjoint Dirichlet
  boundaries, the residual is assembled and the coarse lift function is built and added
  to the system's vectors.
\<close>

definition coarse_lift_function ::
  "('v, 'p, 'm) estimator_calls \<Rightarrow> nat \<Rightarrow> ('v, 'p, 'm) estimation_state option
     \<Rightarrow> ('v, 'p, 'm) estimation_state option" where
  "coarse_lift_function c j r =
     do { s \<leftarrow> r;
          if cfg_qoi_set_has_index c j \<and> has_adjoint_dirichlet_boundaries c j then
            do { let s = (if cfg_residual_evaluation_physics c then push_physics c False s else s);
                 let s = assembly c s;
                 coarse_residual \<leftarrow> get_vector s ''RHS Vector'';
                 let s = add_vector c (liftfunc_name j) s;
                 adjoint \<leftarrow> get_vector s (adjoint_vector_name c j);
                 let s = set_vector (liftfunc_name j) (init_like c adjoint) s;
                 lift \<leftarrow> get_vector s (liftfunc_name j);
                 let s = set_vector (liftfunc_name j)
                           (enforce_adjoint_constraints_exactly c s j lift) s;
                 Some (if cfg_residual_evaluation_physics c then pop_physics c s else s) }
          else Some s }"

definition before_backup ::
  "('v, 'p, 'm) estimator_calls \<Rightarrow> ('v, 'p, 'm) estimation_state \<Rightarrow> ('v, 'p, 'm) estimation_state option" where
  "before_backup c s =
     fold (coarse_lift_function c) [0..<cfg_n_qois c] (Some (coarse_adjoint_solve c s))"

text \<open>Lines 190 to 239: what is backed up.\<close>

record ('v, 'p) backup =
  coarse_vectors :: "string \<rightharpoonup> 'v"
  coarse_solution :: 'v
  coarse_local_solution :: 'v
  old_adjoints_projection_settings :: "bool list"
  old_projection_setting :: bool
  old_project_with_constraints_setting :: bool
  old_partitioner :: "'p option"
  old_renumbering_setting :: bool

text \<open>
  The loop that saves the preservation setting of each adjoint vector of the QoI set in
  \<open>old_adjoints_projection_settings[j]\<close> and sets it to true.
\<close>

definition save_adjoint_preservation ::
  "('v, 'p, 'm) estimator_calls \<Rightarrow> nat \<Rightarrow> bool list \<times> ('v, 'p, 'm) estimation_state
     \<Rightarrow> bool list \<times> ('v, 'p, 'm) estimation_state" where
  "save_adjoint_preservation c j os =
     (if cfg_qoi_set_has_index c j then
        ((fst os)[j := sys_vector_preservation (snd os) (adjoint_vector_name c j)],
         set_vector_preservation (adjoint_vector_name c j) True (snd os))
      else os)"

definition take_backup ::
  "('v, 'p, 'm) estimator_calls \<Rightarrow> ('v, 'p, 'm) estimation_state
     \<Rightarrow> ('v, 'p) backup \<times> ('v, 'p, 'm) estimation_state" where
  "take_backup c s =
     (case fold (save_adjoint_preservation c) [0..<cfg_n_qois c]
             (replicate (cfg_n_qois c) False, s) of
        (old_settings, s1) \<Rightarrow>
          (\<lparr> coarse_vectors = sys_vectors s,
             coarse_solution = sys_solution s,
             coarse_local_solution = sys_current_local_solution s,
             old_adjoints_projection_settings = old_settings,
             old_projection_setting = sys_project_solution_on_reinit s1,
             old_project_with_constraints_setting = sys_project_with_constraints s1,
             old_partitioner = mesh_partitioner s1,
             old_renumbering_setting = mesh_allow_renumbering s1 \<rparr>,
           s1\<lparr> sys_project_solution_on_reinit := True,
               sys_project_with_constraints := False,
               mesh_partitioner := None,
               mesh_allow_renumbering := False \<rparr>))"

text \<open>
  Lines 241 to 253: a solution vector other than the system's is swapped in, and
  \<open>error_per_cell\<close> is sized and zeroed.
\<close>

definition swap_solution ::
  "('v, 'p, 'm) estimator_calls \<Rightarrow> ('v, 'p, 'm) estimation_state \<Rightarrow> ('v, 'p, 'm) estimation_state" where
  "swap_solution c s =
     (case solution_vector s of
        None \<Rightarrow> s
      | Some newsol \<Rightarrow>
          update c (s\<lparr> sys_solution := newsol, solution_vector := Some (sys_solution s) \<rparr>))"

definition clear_error_per_cell ::
  "('v, 'p, 'm) estimator_calls \<Rightarrow> ('v, 'p, 'm) estimation_state \<Rightarrow> ('v, 'p, 'm) estimation_state" where
  "clear_error_per_cell c s = s\<lparr> out_error_per_cell := replicate (mesh_max_elem_id c s) 0 \<rparr>"

text \<open>Lines 286 to 296 and 608 to 619: the uniform refinements and coarsenings.\<close>

definition refine_uniformly ::
  "('v, 'p, 'm) estimator_calls \<Rightarrow> ('v, 'p, 'm) estimation_state \<Rightarrow> ('v, 'p, 'm) estimation_state" where
  "refine_uniformly c s =
     ((uniformly_p_refine c) ^^ cfg_number_p_refinements c)
       (((uniformly_refine c) ^^ cfg_number_h_refinements c) s)"

definition coarsen_uniformly ::
  "('v, 'p, 'm) estimator_calls \<Rightarrow> ('v, 'p, 'm) estimation_state \<Rightarrow> ('v, 'p, 'm) estimation_state" where
  "coarsen_uniformly c s =
     ((uniformly_p_coarsen c) ^^ cfg_number_p_refinements c)
       (((uniformly_coarsen c) ^^ cfg_number_h_refinements c) s)"

text \<open>Lines 298 to 317: copies of the projected coarse adjoints.\<close>

definition copy_coarse_adjoint ::
  "('v, 'p, 'm) estimator_calls \<Rightarrow> ('v, 'p, 'm) estimation_state \<Rightarrow> nat \<Rightarrow> 'v option list option
     \<Rightarrow> 'v option list option" where
  "copy_coarse_adjoint c s j r =
     do { coarse_adjoints \<leftarrow> r;
          if cfg_qoi_set_has_index c j then
            do { adjoint \<leftarrow> get_vector s (adjoint_vector_name c j);
                 Some (coarse_adjoints @ [Some adjoint]) }
          else Some (coarse_adjoints @ [None]) }"

text \<open>
  Lines 319 to 351: the residual of the projected primal solution is assembled, and the
  adjoint problem is solved on the refined space.
\<close>

definition fine_residual ::
  "('v, 'p, 'm) estimator_calls \<Rightarrow> ('v, 'p, 'm) estimation_state \<Rightarrow> ('v, 'p, 'm) estimation_state" where
  "fine_residual c s = with_physics c (cfg_residual_evaluation_physics c) False (assembly c) s"

definition fine_adjoint_solve ::
  "('v, 'p, 'm) estimator_calls \<Rightarrow> ('v, 'p, 'm) estimation_state \<Rightarrow> ('v, 'p, 'm) estimation_state" where
  "fine_adjoint_solve c s =
     with_physics c (cfg_adjoint_evaluation_physics c) True
       (\<lambda>s. if cfg_number_h_refinements c > 0 \<or> cfg_number_p_refinements c > 0
             then adjoint_solve c s else s) s"

text \<open>Lines 356 to 397: the global error estimate of each QoI of the set.\<close>

definition global_QoI_error ::
  "('v, 'p, 'm) estimator_calls \<Rightarrow> nat \<Rightarrow> ('v, 'p, 'm) estimation_state option
     \<Rightarrow> ('v, 'p, 'm) estimation_state option" where
  "global_QoI_error c j r =
     do { s \<leftarrow> r;
          if cfg_qoi_set_has_index c j then
            (if has_adjoint_dirichlet_boundaries c j then
               do { adjoint \<leftarrow> get_vector s (adjoint_vector_name c j);
                    lift \<leftarrow> get_vector s (liftfunc_name j);
                    let s = set_vector (adjoint_vector_name c j) (vector_minus c adjoint lift) s;
                    projected_residual \<leftarrow> get_vector s ''RHS Vector'';
                    adjoint \<leftarrow> get_vector s (adjoint_vector_name c j);
                    let s = s\<lparr> out_computed_global_QoI_errors :=
                                  (out_computed_global_QoI_errors s)
                                    [j := vector_dot c projected_residual adjoint] \<rparr>;
                    lift \<leftarrow> get_vector s (liftfunc_name j);
                    Some (set_vector (adjoint_vector_name c j) (vector_plus c adjoint lift) s) }
             else
               do { projected_residual \<leftarrow> get_vector s ''RHS Vector'';
                    adjoint \<leftarrow> get_vector s (adjoint_vector_name c j);
                    Some (s\<lparr> out_computed_global_QoI_errors :=
                                (out_computed_global_QoI_errors s)
                                  [j := vector_dot c projected_residual adjoint] \<rparr>) })
          else Some s }"

text \<open>Lines 399 to 417: the lift functions are removed from the system.\<close>

definition remove_lift_function ::
  "('v, 'p, 'm) estimator_calls \<Rightarrow> nat \<Rightarrow> ('v, 'p, 'm) estimation_state
     \<Rightarrow> ('v, 'p, 'm) estimation_state" where
  "remove_lift_function c j s =
     (if cfg_qoi_set_has_index c j \<and> has_adjoint_dirichlet_boundaries c j
      then remove_vector (liftfunc_name j) s else s)"

text \<open>Lines 428 to 455: the coarse adjoint is subtracted from the refined one.\<close>

definition subtract_coarse_adjoint ::
  "('v, 'p, 'm) estimator_calls \<Rightarrow> 'v option list \<Rightarrow> nat \<Rightarrow> ('v, 'p, 'm) estimation_state option
     \<Rightarrow> ('v, 'p, 'm) estimation_state option" where
  "subtract_coarse_adjoint c coarse_adjoints j r =
     do { s \<leftarrow> r;
          if cfg_qoi_set_has_index c j \<and>
             (has_adjoint_dirichlet_boundaries c j \<or> \<not> cfg_residual_evaluation_physics c) then
            do { adjoint \<leftarrow> get_vector s (adjoint_vector_name c j);
                 coarse \<leftarrow> (if j < length coarse_adjoints then coarse_adjoints ! j else None);
                 Some (set_vector (adjoint_vector_name c j) (vector_minus c adjoint coarse) s) }
          else Some s }"

text \<open>
  Lines 241 to 619: everything between the backup and the restoration, on the refined
  mesh, ending with the coarsening. Unless the adjoint physics is swapped, the function
  asserts that there is at least one refinement. (In debug builds it also counts the
  active elements and the local nodes that bear DOFs before the refinement and asserts the
  same counts after the coarsening; the counts are the subject of the section on uniform
  refinement below.)
\<close>

definition refined_work ::
  "('v, 'p, 'm) estimator_calls \<Rightarrow> ('v, 'p, 'm) estimation_state \<Rightarrow> ('v, 'p, 'm) estimation_state option" where
  "refined_work c s =
     (if \<not> cfg_adjoint_evaluation_physics c \<and>
         \<not> (cfg_number_h_refinements c > 0 \<or> cfg_number_p_refinements c > 0)
      then None
      else
        do { let s = refine_uniformly c (clear_error_per_cell c (swap_solution c s));
             coarse_adjoints \<leftarrow> fold (copy_coarse_adjoint c s) [0..<cfg_n_qois c] (Some []);
             let s = fine_residual c s;
             _ \<leftarrow> get_vector s ''RHS Vector'';
             let s = fine_adjoint_solve c s;
             let s = s\<lparr> out_computed_global_QoI_errors :=
                           take (cfg_n_qois c) (out_computed_global_QoI_errors s) @
                           replicate (cfg_n_qois c - length (out_computed_global_QoI_errors s)) 0 \<rparr>;
             s \<leftarrow> fold (global_QoI_error c) [0..<cfg_n_qois c] (Some s);
             let s = fold (remove_lift_function c) [0..<cfg_n_qois c] s;
             s \<leftarrow> fold (subtract_coarse_adjoint c coarse_adjoints) [0..<cfg_n_qois c] (Some s);
             let s = s\<lparr> out_error_per_cell := compute_indicators c s \<rparr>;
             let s = s\<lparr> sys_project_solution_on_reinit := False \<rparr>;
             Some (coarsen_uniformly c s) })"

text \<open>Lines 642 to 679: the restoration.\<close>

definition restore_adjoint_preservation ::
  "('v, 'p, 'm) estimator_calls \<Rightarrow> bool list \<Rightarrow> nat \<Rightarrow> ('v, 'p, 'm) estimation_state
     \<Rightarrow> ('v, 'p, 'm) estimation_state" where
  "restore_adjoint_preservation c old_settings j s =
     (if cfg_qoi_set_has_index c j
      then set_vector_preservation (adjoint_vector_name c j) (old_settings ! j) s
      else s)"

definition restore ::
  "('v, 'p, 'm) estimator_calls \<Rightarrow> ('v, 'p) backup \<Rightarrow> ('v, 'p, 'm) estimation_state
     \<Rightarrow> ('v, 'p, 'm) estimation_state" where
  "restore c b s =
     (let s = s\<lparr> sys_project_solution_on_reinit := old_projection_setting b,
                 sys_project_with_constraints := old_project_with_constraints_setting b \<rparr>;
          s = fold (restore_adjoint_preservation c (old_adjoints_projection_settings b))
                [0..<cfg_n_qois c] s;
          s = s\<lparr> sys_solution := coarse_solution b,
                 sys_current_local_solution := coarse_local_solution b \<rparr>;
          s = s\<lparr> sys_vectors :=
                   (\<lambda>var_name. case sys_vectors s var_name of
                                   None \<Rightarrow> None
                                 | Some v \<Rightarrow>
                                     (case coarse_vectors b var_name of
                                        Some coarsevec \<Rightarrow> Some coarsevec
                                      | None \<Rightarrow> Some v)) \<rparr>
      in s\<lparr> mesh_partitioner := old_partitioner b,
            mesh_allow_renumbering := old_renumbering_setting b \<rparr>)"

definition AdjointRefinementEstimator_estimate_error ::
  "('v, 'p, 'm) estimator_calls \<Rightarrow> ('v, 'p, 'm) estimation_state \<Rightarrow> ('v, 'p, 'm) estimation_state option" where
  "AdjointRefinementEstimator_estimate_error c s =
     do { s \<leftarrow> before_backup c s;
          (b, s) \<leftarrow> Some (take_backup c s);
          s \<leftarrow> refined_work c s;
          let s = restore c b s;
          Some (s\<lparr> out_error_per_cell := reduce_error_vector c (out_error_per_cell s) \<rparr>) }"

text \<open>
  A system with one QoI whose adjoint has not been solved yet but whose adjoint vector
  exists from an earlier solve, holding 5; vectors have one entry. The adjoint solve
  writes the solution 1, the assembly the residual 0; every other call leaves the state as
  it is.
\<close>

definition frame_example_calls :: "(int, unit, unit) estimator_calls" where
  "frame_example_calls =
     \<lparr> cfg_number_h_refinements = 1, cfg_number_p_refinements = 0, cfg_n_qois = 1,
       cfg_qoi_set_has_index = (\<lambda>_. True),
       cfg_residual_evaluation_physics = False, cfg_adjoint_evaluation_physics = False,
       has_adjoint_dirichlet_boundaries = (\<lambda>_. False),
       adjoint_vector_name = (\<lambda>j. ''adjoint_solution'' @ string_of_nat j),
       push_physics = (\<lambda>_ s. s), pop_physics = (\<lambda>s. s),
       adjoint_solve = set_vector ''adjoint_solution0'' 1,
       assembly = set_vector ''RHS Vector'' 0,
       update = (\<lambda>s. s),
       uniformly_refine = (\<lambda>s. s), uniformly_p_refine = (\<lambda>s. s),
       uniformly_coarsen = (\<lambda>s. s), uniformly_p_coarsen = (\<lambda>s. s),
       mesh_max_elem_id = (\<lambda>_. 1), new_vector = (\<lambda>_. 0), init_like = (\<lambda>_. 0),
       enforce_adjoint_constraints_exactly = (\<lambda>_ _ v. v),
       vector_minus = (\<lambda>a b. a - b), vector_plus = (\<lambda>a b. a + b),
       vector_dot = (\<lambda>a b. real_of_int (a * b)),
       compute_indicators = out_error_per_cell,
       reduce_error_vector = (\<lambda>v. v) \<rparr>"

definition frame_example_state :: "(int, unit, unit) estimation_state" where
  "frame_example_state =
     \<lparr> sys_project_solution_on_reinit = False, sys_project_with_constraints = True,
       sys_vector_preservation = (\<lambda>_. False),
       sys_solution = 3, sys_current_local_solution = 3,
       sys_vectors = [''adjoint_solution0'' \<mapsto> 5, ''RHS Vector'' \<mapsto> 7],
       sys_adjoint_already_solved = False,
       mesh_partitioner = Some (), mesh_allow_renumbering = True,
       solution_vector = None,
       out_error_per_cell = [], out_computed_global_QoI_errors = [],
       other_state = () \<rparr>"

definition frame_example_state_solved :: "(int, unit, unit) estimation_state" where
  "frame_example_state_solved = frame_example_state\<lparr> sys_adjoint_already_solved := True \<rparr>"
section \<open>Reference element cache (src/geom/reference\_elem.C)\<close>

text \<open>
  Modelled from the spec: the enumeration \<open>ElemType\<close> is declared in
  \<open>enum_elem_type.h\<close>, which is not among the sources. The constructors below are the
  enumerators that \<open>reference_elem.C\<close> names; \<open>OTHER_ELEM k\<close> stands for every
  further enumerator below \<open>INVALID_ELEM\<close> (infinite elements, \<open>NODEELEM\<close>, ...), none of
  which is given reference data by \<open>init_ref_elem_table\<close>.
\<close>

datatype ElemType =
    EDGE2 | EDGE3 | EDGE4
  | TRI3 | TRI6 | TRI7
  | QUAD4 | QUAD8 | QUAD9
  | HEX8 | HEX20 | HEX27
  | TET4 | TET10 | TET14
  | PRISM6 | PRISM15 | PRISM18 | PRISM20 | PRISM21
  | PYRAMID5 | PYRAMID13 | PYRAMID14 | PYRAMID18
  | TRISHELL3 | QUADSHELL4 | QUADSHELL8
  | OTHER_ELEM nat
  | INVALID_ELEM

text \<open>
  The process-wide state of the anonymous namespace: \<open>singleton_cache\<close> (null until the
  first initialisation; its \<open>elem_list\<close> is kept, the \<open>node_list\<close> is owned by the
  elements here) and the static array \<open>ref_elem_map\<close>, zero-initialised, so every entry
  starts as the null pointer. The elements themselves are built by \<open>read_ref_elem\<close> from
  the embedded strings of \<open>reference_elem.data\<close>, which is not among the sources: the
  result of reading the string of one type is the parameter \<open>ref_data\<close>, \<open>None\<close> when
  the stream fails.
\<close>

record 'e ref_cache =
  singleton_cache :: "'e list option"
  ref_elem_map :: "ElemType \<Rightarrow> 'e option"

datatype ref_error =
    ErrorCreatingSingleton
  | NoReferenceElemData ElemType

definition ref_cache_init :: "'e ref_cache" where
  "ref_cache_init = \<lparr> singleton_cache = None, ref_elem_map = (\<lambda>_. None) \<rparr>"

text \<open>The keys of \<open>ref_elem_file\<close>, in the order \<open>init_ref_elem_table\<close> inserts them.\<close>

definition ref_elem_file :: "ElemType list" where
  "ref_elem_file =
     [EDGE2, EDGE3, EDGE4,
      TRI3, TRI6, TRI7,
      QUAD4, QUAD8, QUAD9,
      HEX8, HEX20, HEX27,
      TET4, TET10, TET14,
      PRISM6, PRISM15, PRISM18, PRISM20, PRISM21,
      PYRAMID5, PYRAMID13, PYRAMID14, PYRAMID18]"

text \<open>
  \<open>read_ref_elem\<close>: builds the element, fails with a fatal error when the stream went
  bad, otherwise appends the element to \<open>elem_list\<close> and stores it in the array.
\<close>

definition read_ref_elem ::
  "(ElemType \<Rightarrow> 'e option) \<Rightarrow> ElemType \<Rightarrow> 'e ref_cache \<Rightarrow> ref_error option \<times> 'e ref_cache" where
  "read_ref_elem ref_data type_in c =
     (case ref_data type_in of
        None \<Rightarrow> (Some ErrorCreatingSingleton, c)
      | Some uelem \<Rightarrow>
          (None,
           c\<lparr> singleton_cache := Some (the (singleton_cache c) @ [uelem]),
              ref_elem_map := (ref_elem_map c)(type_in := Some uelem) \<rparr>))"

fun read_all ::
  "(ElemType \<Rightarrow> 'e option) \<Rightarrow> ElemType list \<Rightarrow> 'e ref_cache \<Rightarrow> ref_error option \<times> 'e ref_cache" where
  "read_all ref_data [] c = (None, c)"
| "read_all ref_data (t # ts) c =
     (case read_ref_elem ref_data t c of
        (Some e, c') \<Rightarrow> (Some e, c')
      | (None, c') \<Rightarrow> read_all ref_data ts c')"

text \<open>
  \<open>init_ref_elem_table\<close>: returns at once when the cache pointer is set; otherwise
  creates the cache and reads every entry of the file table. (The mutex only
  serialises two threads that reach this point together.)
\<close>

definition init_ref_elem_table ::
  "(ElemType \<Rightarrow> 'e option) \<Rightarrow> 'e ref_cache \<Rightarrow> ref_error option \<times> 'e ref_cache" where
  "init_ref_elem_table ref_data c =
     (if singleton_cache c \<noteq> None then (None, c)
      else read_all ref_data ref_elem_file (c\<lparr> singleton_cache := Some [] \<rparr>))"

definition shell_base_type :: "ElemType \<Rightarrow> ElemType" where
  "shell_base_type type_in =
     (let base_type = type_in;
          base_type = (if type_in = TRISHELL3 then TRI3 else base_type);
          base_type = (if type_in = QUADSHELL4 then QUAD4 else base_type);
          base_type = (if type_in = QUADSHELL8 then QUAD8 else base_type)
      in base_type)"

text \<open>
  \<open>ReferenceElem::get\<close>. The array has \<open>INVALID_ELEM\<close> entries, so for
  \<open>type_in = INVALID_ELEM\<close> the source reads one past its end before testing
  \<open>type_in == INVALID_ELEM\<close>; whatever that read yields, the disjunction is true. In the
  model no entry is ever stored under \<open>INVALID_ELEM\<close>.
\<close>

definition get ::
  "(ElemType \<Rightarrow> 'e option) \<Rightarrow> ElemType \<Rightarrow> 'e ref_cache \<Rightarrow> (ref_error + 'e) \<times> 'e ref_cache" where
  "get ref_data type_in c =
     (let base_type = shell_base_type type_in in
      case init_ref_elem_table ref_data c of
        (Some e, c') \<Rightarrow> (Inl e, c')
      | (None, c') \<Rightarrow>
          (if ref_elem_map c' base_type = None \<or> type_in = INVALID_ELEM
           then (Inl (NoReferenceElemData type_in), c')
           else (Inr (the (ref_elem_map c' base_type)), c')))"

section \<open>Properties of DofObject\<close>

lemma var_to_vg_and_offset_sound:
  "var_to_vg_and_offset nvs vg0 var = Some (vg, vig) \<Longrightarrow>
     vg0 \<le> vg \<and> vg - vg0 < length nvs \<and> vig < nvs ! (vg - vg0) \<and>
     var = sum_list (take (vg - vg0) nvs) + vig"
proof (induction nvs vg0 var rule: var_to_vg_and_offset.induct)
  case (1 vg0 var)
  then show ?case by simp
next
  case (2 nv nvs vg0 var)
  show ?case
  proof (cases "var < nv")
    case True
    with "2.prems" show ?thesis by simp
  next
    case False
    with "2.prems" have r: "var_to_vg_and_offset nvs (Suc vg0) (var - nv) = Some (vg, vig)"
      by simp
    from "2.IH" [OF False r] have ih: "Suc vg0 \<le> vg" "vg - Suc vg0 < length nvs"
        "vig < nvs ! (vg - Suc vg0)" "var - nv = sum_list (take (vg - Suc vg0) nvs) + vig"
      by simp_all
    from ih(1) obtain d where d: "vg - vg0 = Suc d" "vg - Suc vg0 = d"
      by (metis Suc_diff_Suc Suc_le_lessD diff_Suc_eq_diff_pred diff_Suc_1)
    show ?thesis
      using ih False unfolding d by simp
  qed
qed

lemma dof_number_formula:
  assumes "dof_number obj s var component = Some d"
  shows "\<exists>t vg vig n_comp base.
           system_table obj s = Some t \<and>
           var_to_vg_and_offset (map fst (var_groups t)) 0 var = Some (vg, vig) \<and>
           n_comp_group obj s vg = Some n_comp \<and> vg_dof_base obj s vg = Some base \<and>
           component < n_comp \<and>
           d = base + of_nat vig * of_nat n_comp + of_nat component"
  using assms
  by (auto simp: dof_number_def Option.bind_eq_Some_conv split: if_splits)

lemma jens_table:
  "idx_buf (set_buffer buf obj) = buf"
  by (simp add: set_buffer_def)

text \<open>
  Claim C1. After \<open>set_buffer\<close> with the packed buffer
  \<open>{2, 8, 257, 0, 257, 96, 257, 192, 257, 0}\<close>, \<open>dof_number(0,0,0)\<close> is 0,
  \<open>dof_number(0,1,0)\<close> is 96, \<open>dof_number(0,2,0)\<close> is 192 and \<open>dof_number(1,0,0)\<close> is 0,
  whatever the object held before: each is the DOF base of the variable's group (the three
  groups of system 0 have one variable of one component each and the bases 0, 96 and 192)
  plus index in group times components plus component. The second buffer of the test
  gives 1, 97, 193 and 1.
\<close>

theorem dof_number_Jens_Eftang:
  "dof_number (set_buffer [2, 8, 257, 0, 257, 96, 257, 192, 257, 0] obj) 0 0 0 = Some 0 \<and>
   dof_number (set_buffer [2, 8, 257, 0, 257, 96, 257, 192, 257, 0] obj) 0 1 0 = Some 96 \<and>
   dof_number (set_buffer [2, 8, 257, 0, 257, 96, 257, 192, 257, 0] obj) 0 2 0 = Some 192 \<and>
   dof_number (set_buffer [2, 8, 257, 0, 257, 96, 257, 192, 257, 0] obj) 1 0 0 = Some 0 \<and>
   n_var_groups (set_buffer [2, 8, 257, 0, 257, 96, 257, 192, 257, 0] obj) 0 = Some 3 \<and>
   n_vars_group (set_buffer [2, 8, 257, 0, 257, 96, 257, 192, 257, 0] obj) 0 1 = Some 1 \<and>
   n_comp_group (set_buffer [2, 8, 257, 0, 257, 96, 257, 192, 257, 0] obj) 0 1 = Some 1 \<and>
   vg_dof_base (set_buffer [2, 8, 257, 0, 257, 96, 257, 192, 257, 0] obj) 0 1 = Some 96 \<and>
   vg_dof_base (set_buffer [2, 8, 257, 0, 257, 96, 257, 192, 257, 0] obj) 0 2 = Some 192 \<and>
   dof_number (set_buffer [2, 8, 257, 1, 257, 97, 257, 193, 257, 1] obj) 0 0 0 = Some 1 \<and>
   dof_number (set_buffer [2, 8, 257, 1, 257, 97, 257, 193, 257, 1] obj) 0 1 0 = Some 97 \<and>
   dof_number (set_buffer [2, 8, 257, 1, 257, 97, 257, 193, 257, 1] obj) 0 2 0 = Some 193 \<and>
   dof_number (set_buffer [2, 8, 257, 1, 257, 97, 257, 193, 257, 1] obj) 1 0 0 = Some 1"
  by (simp add: jens_table dof_number_def system_table_def n_systems_def start_idx_def
      end_idx_def ncv_magic_def n_comp_group_def vg_dof_base_def n_var_groups_def n_vars_group_def)

section \<open>Element indicators of the adjoint refinement estimator\<close>

lemma indicator_elem_ignores_point_neighbors:
  "indicator_elem (are\<lparr> find_point_neighbors := g \<rparr>) = indicator_elem are"
  by (simp add: fun_eq_iff indicator_elem_def local_contribution_def split: option.splits)

lemma indicator_qoi_ignores_point_neighbors:
  "indicator_qoi (are\<lparr> find_point_neighbors := g \<rparr>) = indicator_qoi are"
  by (simp add: fun_eq_iff indicator_qoi_def indicator_elem_ignores_point_neighbors)

lemma element_indicators_ignores_point_neighbors:
  "element_indicators (are\<lparr> find_point_neighbors := g \<rparr>) mesh n_coarse pid =
     element_indicators are mesh n_coarse pid"
  by (simp add: element_indicators_def indicator_qoi_ignores_point_neighbors)

lemma adjoint_example_indicators:
  "element_indicators adjoint_example adjoint_example_mesh 2 0 = Some [4, 4]"
  by code_simp

lemma adjoint_example_shared_element_count:
  "map_option (\<lambda>shared_element_count. map shared_element_count [0, 1, 2, 3, 4])
     (build_shared_element_count adjoint_example adjoint_example_mesh 0) =
   Some [Some 1, Some 2, Some 1, Some 1, Some 1]"
  by code_simp

text \<open>
  Claim C2, at a failing input. On the once-refined two-element mesh, node 1 is shared by
  children of both coarse elements, and \<open>shared_element_count\<close> records 2 for it (1 for
  every other node). Each fine element contributes the absolute value of its full dot
  product, 2, to the slot of its coarse parent, so both slots end at 4: nothing is divided
  by the count, and no choice of point neighbors changes the indicators. Dividing the
  share of the DOF at node 1 by its count would give 3.5 in both slots.
\<close>

theorem adjoint_indicators_not_scaled:
  "map_option (\<lambda>shared_element_count. map shared_element_count [0, 1, 2, 3, 4])
     (build_shared_element_count adjoint_example adjoint_example_mesh 0) =
     Some [Some 1, Some 2, Some 1, Some 1, Some 1] \<and>
   element_indicators adjoint_example adjoint_example_mesh 2 0 = Some [4, 4] \<and>
   (\<forall>g. element_indicators (adjoint_example\<lparr> find_point_neighbors := g \<rparr>)
          adjoint_example_mesh 2 0 = Some [4, 4])"
proof (intro conjI allI)
  show "map_option (\<lambda>shared_element_count. map shared_element_count [0, 1, 2, 3, 4])
     (build_shared_element_count adjoint_example adjoint_example_mesh 0) =
     Some [Some 1, Some 2, Some 1, Some 1, Some 1]"
    by (rule adjoint_example_shared_element_count)
  show "element_indicators adjoint_example adjoint_example_mesh 2 0 = Some [4, 4]"
    by (rule adjoint_example_indicators)
  show "element_indicators (adjoint_example\<lparr> find_point_neighbors := g \<rparr>)
          adjoint_example_mesh 2 0 = Some [4, 4]" for g
    unfolding element_indicators_ignores_point_neighbors
    by (rule adjoint_example_indicators)
qed

section \<open>Accumulation in the jump error estimator\<close>

lemma fold_preserves:
  assumes "\<And>x s. x \<in> set xs \<Longrightarrow> P s \<Longrightarrow> P (f x s)" and "P s"
  shows "P (fold f xs s)"
  using assms by (induction xs arbitrary: s) simp_all

lemma add_error_length [simp]: "length (add_error j x v) = length v"
  by (simp add: add_error_def)

lemma add_error_nth:
  "j < length v \<Longrightarrow> i < length v \<Longrightarrow> add_error j x v ! i = (if i = j then v ! i + x else v ! i)"
  by (simp add: add_error_def nth_list_update)

lemma jump_inv_internal_integrate:
  assumes "fine < n" "coarse < n" "jump_inv je n s"
  shows "jump_inv je n (internal_integrate je k fine coarse var s)"
proof (cases "significant_var je var")
  case False
  then show ?thesis using assms by (simp add: internal_integrate_def)
next
  case True
  obtain fe ce where r: "internal_side_integration je k fine coarse var = (fe, ce)"
    by (cases "internal_side_integration je k fine coarse var")
  let ?s' = "s\<lparr> error_per_cell := add_error coarse ce (add_error fine fe (error_per_cell s)),
                contributions := contributions s @ [Internal_contribution k fine coarse var fe ce] \<rparr>"
  have eq: "internal_integrate je k fine coarse var s = ?s'"
    using True by (simp add: internal_integrate_def r)
  from assms(3) have len: "length (error_per_cell s) = n"
    and sums: "\<forall>i<n. error_per_cell s ! i = sum_list (map (share i) (contributions s))"
    and ret: "list_all (returned_by je) (contributions s)"
    by (simp_all add: jump_inv_def)
  have "\<forall>i<n. error_per_cell ?s' ! i = sum_list (map (share i) (contributions ?s'))"
    using assms(1,2) len sums by (auto simp: add_error_nth)
  moreover have "list_all (returned_by je) (contributions ?s')"
    using ret True r by simp
  moreover have "length (error_per_cell ?s') = n"
    using len by simp
  ultimately show ?thesis
    unfolding eq jump_inv_def by blast
qed

lemma jump_inv_internal_vars:
  assumes "fine < n" "coarse < n" "jump_inv je n s"
  shows "jump_inv je n (internal_vars je k fine coarse s)"
  unfolding internal_vars_def
  by (rule fold_preserves) (simp_all add: jump_inv_internal_integrate assms)

lemma jump_inv_count_flux_faces:
  "jump_inv je n (count_flux_faces je fine coarse s) = jump_inv je n s"
  by (simp add: count_flux_faces_def jump_inv_def)

lemma jump_inv_boundary_integrate:
  assumes "e < n" "jump_inv je n (fst sf)"
  shows "jump_inv je n (fst (boundary_integrate je on_parent e side var sf))"
proof (cases "significant_var je var")
  case False
  then show ?thesis using assms by (simp add: boundary_integrate_def)
next
  case True
  show ?thesis
  proof (cases "boundary_side_integration je on_parent e side var")
    case None
    then show ?thesis using assms True by (simp add: boundary_integrate_def)
  next
    case (Some fe)
    let ?s = "fst sf"
    let ?s' = "?s\<lparr> error_per_cell := add_error e fe (error_per_cell ?s),
                    contributions := contributions ?s @ [Boundary_contribution on_parent e side var fe] \<rparr>"
    have eq: "fst (boundary_integrate je on_parent e side var sf) = ?s'"
      using True Some by (simp add: boundary_integrate_def)
    from assms(2) have len: "length (error_per_cell ?s) = n"
      and sums: "\<forall>i<n. error_per_cell ?s ! i = sum_list (map (share i) (contributions ?s))"
      and ret: "list_all (returned_by je) (contributions ?s)"
      by (simp_all add: jump_inv_def)
    have "\<forall>i<n. error_per_cell ?s' ! i = sum_list (map (share i) (contributions ?s'))"
      using assms(1) len sums by (auto simp: add_error_nth)
    moreover have "list_all (returned_by je) (contributions ?s')"
      using ret True Some by simp
    moreover have "length (error_per_cell ?s') = n"
      using len by simp
    ultimately show ?thesis
      unfolding eq jump_inv_def by blast
  qed
qed

lemma jump_inv_boundary_side:
  assumes "elem_id e < n" "jump_inv je n s"
  shows "jump_inv je n (boundary_side je on_parent e side s)"
proof -
  have "jump_inv je n (fst (fold (boundary_integrate je on_parent (elem_id e) side) [0..<n_system_vars je] (s, False)))"
    by (rule fold_preserves [where P = "\<lambda>sf. jump_inv je n (fst sf)"])
       (simp_all add: jump_inv_boundary_integrate assms)
  moreover obtain s' b where sb: "fold (boundary_integrate je on_parent (elem_id e) side)
             [0..<n_system_vars je] (s, False) = (s', b)"
    by (cases "fold (boundary_integrate je on_parent (elem_id e) side) [0..<n_system_vars je] (s, False)")
  ultimately have "jump_inv je n s'" by simp
  then show ?thesis
    by (simp add: boundary_side_def sb jump_inv_def)
qed

lemma le_fold_max:
  fixes a :: nat
  shows "a \<le> fold max xs a" "x \<in> set xs \<Longrightarrow> x \<le> fold max xs a"
proof -
  have g: "fold max xs b \<ge> b \<and> (\<forall>x \<in> set xs. x \<le> fold max xs b)" for b :: nat
  proof (induction xs arbitrary: b)
    case Nil
    then show ?case by simp
  next
    case (Cons y ys)
    have "max y b \<le> fold max ys (max y b)" using Cons.IH by blast
    then show ?case using Cons.IH [of "max y b"] by auto
  qed
  show "a \<le> fold max xs a" using g by blast
  show "x \<in> set xs \<Longrightarrow> x \<le> fold max xs a" using g by blast
qed

lemma elem_id_less_max:
  assumes "e \<in> set (mesh_elements mesh)"
  shows "elem_id e < max_elem_id mesh"
proof -
  have "Suc (elem_id e) \<in> set (map (\<lambda>e. Suc (elem_id e)) (mesh_elements mesh))"
    using assms by simp
  then have "Suc (elem_id e) \<le> max_elem_id mesh"
    unfolding max_elem_id_def by (rule le_fold_max(2))
  then show ?thesis by simp
qed

lemma elem_ptr_mem:
  "elem_ptr mesh i = Some g \<Longrightarrow> g \<in> set (mesh_elements mesh)"
  unfolding elem_ptr_def by (auto simp: find_Some_iff)

lemma neighbor_ptr_mem:
  "neighbor_ptr mesh e n = Some g \<Longrightarrow> g \<in> set (mesh_elements mesh)"
  by (auto simp: neighbor_ptr_def elem_ptr_mem split: if_splits option.splits)

lemma parent_ptr_mem:
  "parent_ptr mesh e = Some g \<Longrightarrow> g \<in> set (mesh_elements mesh)"
  by (auto simp: parent_ptr_def elem_ptr_mem split: option.splits)

lemma jump_inv_parent_neighbor_step:
  assumes "parent \<in> set (mesh_elements mesh)" "jump_inv je (max_elem_id mesh) s"
  shows "jump_inv je (max_elem_id mesh) (parent_neighbor_step je mesh parent n_p f_id s)"
proof (cases "elem_ptr mesh f_id")
  case None
  then show ?thesis using assms by (simp add: parent_neighbor_step_def)
next
  case (Some f)
  then have "elem_id f < max_elem_id mesh"
    by (simp add: elem_ptr_mem elem_id_less_max)
  moreover have "elem_id parent < max_elem_id mesh"
    using assms(1) by (rule elem_id_less_max)
  ultimately show ?thesis
    using assms(2) Some
    by (simp add: parent_neighbor_step_def jump_inv_count_flux_faces jump_inv_internal_vars)
qed

lemma jump_inv_parent_side_step:
  assumes "parent \<in> set (mesh_elements mesh)" "jump_inv je (max_elem_id mesh) s"
  shows "jump_inv je (max_elem_id mesh) (parent_side_step je mesh parent n_p s)"
proof (cases "neighbor_ptr mesh parent n_p")
  case None
  then show ?thesis
    using assms by (simp add: parent_side_step_def jump_inv_boundary_side elem_id_less_max)
next
  case (Some nb)
  have "jump_inv je (max_elem_id mesh)
          (fold (parent_neighbor_step je mesh parent n_p)
             (active_family_tree_by_neighbor je (elem_id nb) (elem_id parent)) s)"
    by (rule fold_preserves) (simp_all add: jump_inv_parent_neighbor_step assms)
  then show ?thesis using Some by (simp add: parent_side_step_def)
qed

lemma compute_on_parent_mem:
  "compute_on_parent mesh epe e = Some parent \<Longrightarrow> parent \<in> set (mesh_elements mesh)"
  by (auto simp: compute_on_parent_def parent_ptr_mem split: option.splits if_splits)

lemma jump_inv_parent_estimate:
  assumes "jump_inv je (max_elem_id mesh) s"
  shows "jump_inv je (max_elem_id mesh) (parent_estimate je mesh epe e s)"
proof (cases "compute_on_parent mesh epe e")
  case None
  then show ?thesis using assms by (simp add: parent_estimate_def)
next
  case (Some parent)
  then have p: "parent \<in> set (mesh_elements mesh)" by (rule compute_on_parent_mem)
  have "jump_inv je (max_elem_id mesh) (fold (parent_side_step je mesh parent) [0..<n_sides parent] s)"
    by (rule fold_preserves) (simp_all add: jump_inv_parent_side_step p assms)
  then show ?thesis using Some assms by (simp add: parent_estimate_def)
qed

lemma jump_inv_slit_side:
  assumes "e \<in> set (mesh_elements mesh)" "jump_inv je (max_elem_id mesh) s"
  shows "jump_inv je (max_elem_id mesh) (slit_side je mesh e n_e s)"
proof -
  let ?g = "\<lambda>qp f_ptr s'. case elem_ptr mesh f_ptr of
                         None \<Rightarrow> s'
                       | Some f \<Rightarrow>
                           if elem_id f = elem_id e then s'
                           else internal_vars je (Slit n_e qp) (elem_id e) (elem_id f) s'"
  have e: "elem_id e < max_elem_id mesh" using assms(1) by (rule elem_id_less_max)
  have one: "jump_inv je (max_elem_id mesh) (?g qp f_ptr s')"
    if "jump_inv je (max_elem_id mesh) s'" for qp f_ptr s'
    using that e
    by (auto split: option.splits
          simp: jump_inv_internal_vars elem_ptr_mem elem_id_less_max)
  have inner: "jump_inv je (max_elem_id mesh) (fold (?g qp) cs s0)"
    if "jump_inv je (max_elem_id mesh) s0" for qp cs s0
    by (rule fold_preserves) (simp_all add: one that)
  have outer: "jump_inv je (max_elem_id mesh) (fold (\<lambda>qp. fold (?g qp) cs) qs s)" for cs qs
    by (rule fold_preserves) (simp_all add: inner assms(2))
  show ?thesis
    using assms(2) by (simp add: slit_side_def Let_def outer)
qed

lemma jump_inv_side_step:
  assumes "e \<in> set (mesh_elements mesh)" "jump_inv je (max_elem_id mesh) s"
  shows "jump_inv je (max_elem_id mesh) (side_step je mesh e n_e s)"
proof -
  have e: "elem_id e < max_elem_id mesh" using assms(1) by (rule elem_id_less_max)
  show ?thesis
  proof (cases "neighbor_ptr mesh e n_e")
    case None
    then show ?thesis
      using assms e by (simp add: side_step_def jump_inv_slit_side jump_inv_boundary_side)
  next
    case (Some f)
    then have f: "elem_id f < max_elem_id mesh"
      by (simp add: neighbor_ptr_mem elem_id_less_max)
    show ?thesis
      using assms e f Some
      by (simp add: side_step_def jump_inv_slit_side jump_inv_boundary_side
            jump_inv_count_flux_faces jump_inv_internal_vars)
  qed
qed

lemma jump_inv_elem_step:
  assumes "e \<in> set (mesh_elements mesh)" "jump_inv je (max_elem_id mesh) s"
  shows "jump_inv je (max_elem_id mesh) (elem_step je mesh epe e s)"
proof (cases "elem_infinite e")
  case True
  then show ?thesis using assms by (simp add: elem_step_def)
next
  case False
  have "jump_inv je (max_elem_id mesh)
          (fold (side_step je mesh e) [0..<n_sides e] (parent_estimate je mesh epe e s))"
    by (rule fold_preserves) (simp_all add: jump_inv_side_step jump_inv_parent_estimate assms)
  then show ?thesis using False by (simp add: elem_step_def)
qed

lemma jump_inv_local_loop:
  "jump_inv je (max_elem_id mesh) (local_loop je mesh epe pid)"
  unfolding local_loop_def
proof (rule fold_preserves)
  show "jump_inv je (max_elem_id mesh) (jump_init je mesh)"
    by (simp add: jump_inv_def jump_init_def)
next
  fix e s
  assume "e \<in> set (active_local_element_ptr_range mesh pid)" "jump_inv je (max_elem_id mesh) s"
  then show "jump_inv je (max_elem_id mesh) (elem_step je mesh epe e s)"
    by (simp add: active_local_element_ptr_range_def jump_inv_elem_step)
qed

lemma reduce_error_nth:
  "i < n \<Longrightarrow> reduce_error n vs ! i = sum_list (map (\<lambda>v. v ! i) vs)"
  by (simp add: reduce_error_def)

lemma reduce_error_length [simp]: "length (reduce_error n vs) = n"
  by (simp add: reduce_error_def)

lemma summed_error_nth:
  assumes "i < max_elem_id mesh"
  shows "summed_error je mesh epe ! i =
           (\<Sum>pid\<leftarrow>[0..<mesh_n_processors mesh].
              \<Sum>c\<leftarrow>contributions (local_loop je mesh epe pid). share i c)"
proof -
  have "error_per_cell (local_loop je mesh epe pid) ! i =
          (\<Sum>c\<leftarrow>contributions (local_loop je mesh epe pid). share i c)" for pid
    using jump_inv_local_loop [of je mesh epe pid] assms by (simp add: jump_inv_def)
  then show ?thesis
    using assms by (simp add: summed_error_def reduce_error_nth comp_def)
qed

lemma estimate_error_nth:
  assumes "i < max_elem_id mesh"
  shows "JumpErrorEstimator_estimate_error je mesh epe ! i =
           (if scale_by_n_flux_faces je \<and> summed_flux_faces je mesh epe ! i \<noteq> 0
            then sqrt (summed_error je mesh epe ! i) / summed_flux_faces je mesh epe ! i
            else sqrt (summed_error je mesh epe ! i))"
proof -
  have len: "length (summed_error je mesh epe) = max_elem_id mesh"
    by (simp add: summed_error_def)
  have r: "map (\<lambda>x. if x \<noteq> 0 then sqrt x else x) (summed_error je mesh epe) ! i =
             sqrt (summed_error je mesh epe ! i)"
    using assms len by simp
  show ?thesis
    using assms r by (simp add: JumpErrorEstimator_estimate_error_def Let_def)
qed

lemma traced_internal_returned:
  assumes "Internal_contribution k fine coarse v fe ce \<in> set (contributions (local_loop je mesh epe pid))"
  shows "internal_side_integration je k fine coarse v = (fe, ce)"
proof -
  have "list_all (returned_by je) (contributions (local_loop je mesh epe pid))"
    using jump_inv_local_loop [of je mesh epe pid] by (simp add: jump_inv_def)
  then have "\<forall>c \<in> set (contributions (local_loop je mesh epe pid)). returned_by je c"
    by (simp only: list_all_iff)
  with assms have "returned_by je (Internal_contribution k fine coarse v fe ce)"
    by blast
  then show ?thesis by simp
qed

lemma face_integration_traced:
  assumes "(e, n_e, f, v) \<in> set (face_integrations s)"
  shows "\<exists>fe ce. Internal_contribution (Face n_e) e f v fe ce \<in> set (contributions s)"
proof -
  from assms obtain c where c: "c \<in> set (contributions s)" "(e, n_e, f, v) \<in> set (face_key c)"
    by (auto simp: face_integrations_def)
  from c(2) obtain fe ce where "c = Internal_contribution (Face n_e) e f v fe ce"
    by (cases c rule: face_key.cases) simp_all
  with c(1) show ?thesis by blast
qed

text \<open>
  Claim C4, as amended. For a side integrated between an element and its neighbor (and for
  every other integration of two elements), one call of \<open>internal_side_integration\<close>
  returns two values: \<open>fine_error\<close> is added to the slot of the element the side is
  integrated from and \<open>coarse_error\<close> to the slot of the neighbor. Each slot of the summed
  vector holds the sum, over all processors, of the shares that went to it, and the
  result of \<open>estimate_error\<close> in that slot is the square root of that sum, taken once
  (then divided by the number of flux faces when that scaling is on and the number is not
  zero). A slot that is zero stays zero.
\<close>

theorem jump_error_accumulation:
  assumes "i < max_elem_id mesh"
  shows "(\<forall>pid e n_e f v. (e, n_e, f, v) \<in> set (face_integrations (local_loop je mesh epe pid)) \<longrightarrow>
            Internal_contribution (Face n_e) e f v
                (fst (internal_side_integration je (Face n_e) e f v))
                (snd (internal_side_integration je (Face n_e) e f v))
              \<in> set (contributions (local_loop je mesh epe pid))) \<and>
         (\<forall>pid k fine coarse v fe ce.
            Internal_contribution k fine coarse v fe ce \<in> set (contributions (local_loop je mesh epe pid)) \<longrightarrow>
            internal_side_integration je k fine coarse v = (fe, ce)) \<and>
         summed_error je mesh epe ! i =
           (\<Sum>pid\<leftarrow>[0..<mesh_n_processors mesh].
              \<Sum>c\<leftarrow>contributions (local_loop je mesh epe pid). share i c) \<and>
         JumpErrorEstimator_estimate_error je mesh epe ! i =
           (if scale_by_n_flux_faces je \<and> summed_flux_faces je mesh epe ! i \<noteq> 0
            then sqrt (summed_error je mesh epe ! i) / summed_flux_faces je mesh epe ! i
            else sqrt (summed_error je mesh epe ! i)) \<and>
         (summed_error je mesh epe ! i = 0 \<longrightarrow> JumpErrorEstimator_estimate_error je mesh epe ! i = 0)"
proof -
  have a: "\<forall>pid e n_e f v. (e, n_e, f, v) \<in> set (face_integrations (local_loop je mesh epe pid)) \<longrightarrow>
            Internal_contribution (Face n_e) e f v
                (fst (internal_side_integration je (Face n_e) e f v))
                (snd (internal_side_integration je (Face n_e) e f v))
              \<in> set (contributions (local_loop je mesh epe pid))"
  proof (intro allI impI)
    fix pid e n_e f v
    assume "(e, n_e, f, v) \<in> set (face_integrations (local_loop je mesh epe pid))"
    from face_integration_traced [OF this] obtain fe ce where
      m: "Internal_contribution (Face n_e) e f v fe ce \<in> set (contributions (local_loop je mesh epe pid))"
      by blast
    from traced_internal_returned [OF m] m
    show "Internal_contribution (Face n_e) e f v
                (fst (internal_side_integration je (Face n_e) e f v))
                (snd (internal_side_integration je (Face n_e) e f v))
              \<in> set (contributions (local_loop je mesh epe pid))"
      by simp
  qed
  have b: "\<forall>pid k fine coarse v fe ce.
            Internal_contribution k fine coarse v fe ce \<in> set (contributions (local_loop je mesh epe pid)) \<longrightarrow>
            internal_side_integration je k fine coarse v = (fe, ce)"
    using traced_internal_returned by blast
  note c = summed_error_nth [OF assms, of je epe]
  note d = estimate_error_nth [OF assms, of je epe]
  have e: "summed_error je mesh epe ! i = 0 \<longrightarrow> JumpErrorEstimator_estimate_error je mesh epe ! i = 0"
    by (simp add: d)
  show ?thesis
    using a b c d e by blast
qed

lemma jump_example_max: "max_elem_id jump_example_mesh = 2"
  by (simp add: max_elem_id_def jump_example_mesh_def)

lemma jump_example_local_loop:
  "local_loop jump_example_estimator jump_example_mesh False 0 =
     \<lparr> error_per_cell = [1, 4], n_flux_faces = [],
       contributions = [Internal_contribution (Face 1) 0 1 0 1 4] \<rparr>"
  by (simp add: local_loop_def active_local_element_ptr_range_def jump_example_mesh_def
        jump_init_def max_elem_id_def elem_step_def parent_estimate_def compute_on_parent_def
        parent_ptr_def n_sides_def side_step_def neighbor_ptr_def elem_ptr_def case_1_or_2_def
        count_flux_faces_def internal_vars_def internal_integrate_def add_error_def
        jump_example_estimator_def upt_rec numeral_2_eq_2)

lemma jump_example_summed:
  "summed_error jump_example_estimator jump_example_mesh False = [1, 4]"
proof -
  have p: "mesh_n_processors jump_example_mesh = 1"
    by (simp add: jump_example_mesh_def)
  show ?thesis
    by (simp add: summed_error_def reduce_error_def jump_example_max p
          jump_example_local_loop upt_rec numeral_2_eq_2)
qed

lemma jump_example_result:
  "JumpErrorEstimator_estimate_error jump_example_estimator jump_example_mesh False = [1, 2]"
proof -
  have s: "\<not> scale_by_n_flux_faces jump_example_estimator"
    by (simp add: jump_example_estimator_def)
  show ?thesis
    by (simp add: JumpErrorEstimator_estimate_error_def Let_def s jump_example_summed)
qed

theorem jump_error_accumulation_witness:
  "summed_error jump_example_estimator jump_example_mesh False ! 1 = 4 \<and>
   JumpErrorEstimator_estimate_error jump_example_estimator jump_example_mesh False ! 1 = 2"
proof -
  have h: "1 < max_elem_id jump_example_mesh" by (simp add: jump_example_max)
  note t = jump_error_accumulation [OF h, of jump_example_estimator False]
  have p: "mesh_n_processors jump_example_mesh = 1"
    by (simp add: jump_example_mesh_def)
  have s: "\<not> scale_by_n_flux_faces jump_example_estimator"
    by (simp add: jump_example_estimator_def)
  from t have a: "summed_error jump_example_estimator jump_example_mesh False ! 1 =
           (\<Sum>pid\<leftarrow>[0..<mesh_n_processors jump_example_mesh].
              \<Sum>c\<leftarrow>contributions (local_loop jump_example_estimator jump_example_mesh False pid). share 1 c)"
    by blast
  have a': "summed_error jump_example_estimator jump_example_mesh False ! 1 = 4"
    unfolding a p by (simp add: jump_example_local_loop)
  from t have b: "JumpErrorEstimator_estimate_error jump_example_estimator jump_example_mesh False ! 1 =
           (if scale_by_n_flux_faces jump_example_estimator \<and>
               summed_flux_faces jump_example_estimator jump_example_mesh False ! 1 \<noteq> 0
            then sqrt (summed_error jump_example_estimator jump_example_mesh False ! 1) /
                 summed_flux_faces jump_example_estimator jump_example_mesh False ! 1
            else sqrt (summed_error jump_example_estimator jump_example_mesh False ! 1))"
    by blast
  have b': "JumpErrorEstimator_estimate_error jump_example_estimator jump_example_mesh False ! 1 = 2"
    unfolding b a' using s by simp
  from a' b' show ?thesis by blast
qed

text \<open>
  The claim as the spec states it ("the same jump contribution into both neighbors'
  slots") fails: in the two-element mesh the one shared side is integrated once, from
  element 0, and that integration adds 1 to the slot of element 0 and 4 to the slot of
  element 1; the result is 1 and 2.
\<close>

theorem jump_same_contribution_counterexample:
  "contributions (local_loop jump_example_estimator jump_example_mesh False 0) =
     [Internal_contribution (Face 1) 0 1 0 1 4] \<and>
   (\<exists>k fine coarse v fine_error coarse_error.
      Internal_contribution k fine coarse v fine_error coarse_error
        \<in> set (contributions (local_loop jump_example_estimator jump_example_mesh False 0)) \<and>
      fine_error \<noteq> coarse_error) \<and>
   summed_error jump_example_estimator jump_example_mesh False = [1, 4] \<and>
   JumpErrorEstimator_estimate_error jump_example_estimator jump_example_mesh False = [1, 2]"
proof -
  have "Internal_contribution (Face 1) 0 1 0 1 4
          \<in> set (contributions (local_loop jump_example_estimator jump_example_mesh False 0)) \<and>
        (1::real) \<noteq> 4"
    by (simp add: jump_example_local_loop)
  then have "\<exists>k fine coarse v fine_error coarse_error.
      Internal_contribution k fine coarse v fine_error coarse_error
        \<in> set (contributions (local_loop jump_example_estimator jump_example_mesh False 0)) \<and>
      fine_error \<noteq> coarse_error"
    by blast
  then show ?thesis
    by (simp add: jump_example_local_loop jump_example_summed jump_example_result)
qed

lemma testManualDofCalculation:
  "do { let a = set_n_systems 2 \<lparr> idx_buf = [], extra_integers = [] \<rparr>;
        a \<leftarrow> set_n_vars_per_group 0 [2, 3] a;
        a \<leftarrow> set_n_vars_per_group 1 [2, 3] a;
        a \<leftarrow> set_n_comp_group 0 0 1 a;
        a \<leftarrow> set_n_comp_group 0 1 3 a;
        a \<leftarrow> set_n_comp_group 1 0 2 a;
        a \<leftarrow> set_n_comp_group 1 1 1 a;
        a \<leftarrow> set_vg_dof_base 0 0 0 a;
        a \<leftarrow> set_vg_dof_base 0 1 120 a;
        a \<leftarrow> set_vg_dof_base 1 0 20 a;
        a \<leftarrow> set_vg_dof_base 1 1 220 a;
        Some (map (\<lambda>(s, var, component). dof_number a s var component)
                [(0, 0, 0), (0, 1, 0), (0, 4, 2), (1, 2, 0)]) }
   = Some [Some 0, Some (0 + 1 * 1 + 0), Some (120 + 2 * 3 + 2), Some (220 + 0 * 3 + 0)]"
  by code_simp

lemma set_extra_integers_prefix:
  assumes "k \<le> length vs" "length vs \<le> length (extra_integers obj)"
  shows "fold (\<lambda>i r. do { o' \<leftarrow> r; set_extra_integer i (vs ! i) o' }) [0..<k] (Some obj) =
           Some (obj\<lparr> extra_integers := take k vs @ drop k (extra_integers obj) \<rparr>)"
  using assms(1)
proof (induction k)
  case 0
  then show ?case by simp
next
  case (Suc k)
  let ?xs = "extra_integers obj"
  from Suc.prems assms(2) have k: "k < length vs" "k < length ?xs" by simp_all
  have upd: "(take k vs @ drop k ?xs)[k := vs ! k] = take (Suc k) vs @ drop (Suc k) ?xs"
  proof -
    have "drop k ?xs = ?xs ! k # drop (Suc k) ?xs"
      using k(2) by (simp add: Cons_nth_drop_Suc)
    then have "(take k vs @ drop k ?xs)[k := vs ! k] = take k vs @ vs ! k # drop (Suc k) ?xs"
      using k(1) by (simp add: list_update_append)
    also have "\<dots> = take (Suc k) vs @ drop (Suc k) ?xs"
      using k(1) by (simp add: take_Suc_conv_app_nth)
    finally show ?thesis .
  qed
  have len: "k < length (take k vs @ drop k ?xs)"
    using k by simp
  show ?case
    using Suc.IH Suc.prems len upd
    by (simp add: set_extra_integer_def n_extra_integers_def)
qed

lemma set_extra_integers_result:
  assumes "length vs \<le> n_extra_integers obj"
  shows "set_extra_integers vs obj =
           Some (obj\<lparr> extra_integers := vs @ drop (length vs) (extra_integers obj) \<rparr>)"
  using set_extra_integers_prefix [of "length vs" vs obj] assms
  by (simp add: set_extra_integers_def n_extra_integers_def)

lemma add_extra_integers_length [simp]:
  "n_extra_integers (add_extra_integers n obj) = n"
  by (simp add: add_extra_integers_def n_extra_integers_def)

lemma add_extra_integers_kept:
  "i < n \<Longrightarrow> i < n_extra_integers obj \<Longrightarrow>
   get_extra_integer i (add_extra_integers n obj) = get_extra_integer i obj"
  by (simp add: get_extra_integer_def add_extra_integers_def n_extra_integers_def nth_append)

lemma add_extra_integers_new:
  "n_extra_integers obj \<le> i \<Longrightarrow> i < n \<Longrightarrow>
   get_extra_integer i (add_extra_integers n obj) = Some invalid_id"
  by (simp add: get_extra_integer_def add_extra_integers_def n_extra_integers_def nth_append)

text \<open>
  Claim C5. Call \<open>add_extra_integers(n)\<close>, set the \<open>n\<close> slots to any values, and call
  \<open>add_extra_integers(m)\<close> with \<open>m > n\<close>: every call succeeds, the first \<open>n\<close> slots still
  hold the values set, and every slot from \<open>n\<close> up to \<open>m\<close> holds the invalid id. Moreover
  \<open>add_system\<close>, \<open>set_n_systems\<close> and \<open>set_n_vars_per_group\<close> leave the extra integers as
  they are, and \<open>add_extra_integers\<close> leaves every slot that stays in range as it is.
\<close>

theorem add_extra_integers_preserves:
  assumes "n < m" "length vs = n"
  shows "(\<exists>obj2. set_extra_integers vs (add_extra_integers n obj) = Some obj2 \<and>
            n_extra_integers obj2 = n \<and>
            (\<forall>i<n. get_extra_integer i obj2 = Some (vs ! i)) \<and>
            n_extra_integers (add_extra_integers m obj2) = m \<and>
            (\<forall>i<n. get_extra_integer i (add_extra_integers m obj2) = Some (vs ! i)) \<and>
            (\<forall>i. n \<le> i \<and> i < m \<longrightarrow> get_extra_integer i (add_extra_integers m obj2) = Some invalid_id)) \<and>
         extra_integers (add_system x) = extra_integers x \<and>
         extra_integers (set_n_systems ns x) = extra_integers x \<and>
         (\<forall>x'. set_n_vars_per_group s nvpg x = Some x' \<longrightarrow> extra_integers x' = extra_integers x) \<and>
         (\<forall>i k. i < k \<and> i < n_extra_integers x \<longrightarrow>
            get_extra_integer i (add_extra_integers k x) = get_extra_integer i x)"
proof -
  let ?o1 = "add_extra_integers n obj"
  let ?o2 = "?o1\<lparr> extra_integers := vs @ drop (length vs) (extra_integers ?o1) \<rparr>"
  have l1: "n_extra_integers ?o1 = n" by simp
  have s: "set_extra_integers vs ?o1 = Some ?o2"
    by (rule set_extra_integers_result) (simp add: assms(2))
  have e2: "extra_integers ?o2 = vs"
    using l1 assms(2) by (simp add: n_extra_integers_def)
  have l2: "n_extra_integers ?o2 = n"
    using e2 assms(2) by (simp add: n_extra_integers_def)
  have g2: "\<forall>i<n. get_extra_integer i ?o2 = Some (vs ! i)"
    using e2 l2 by (simp add: get_extra_integer_def)
  have g3: "\<forall>i<n. get_extra_integer i (add_extra_integers m ?o2) = Some (vs ! i)"
    using g2 l2 assms(1) add_extra_integers_kept [of _ m ?o2] by simp
  have g4: "\<forall>i. n \<le> i \<and> i < m \<longrightarrow> get_extra_integer i (add_extra_integers m ?o2) = Some invalid_id"
    using l2 add_extra_integers_new [of ?o2 _ m] by simp
  have first: "\<exists>obj2. set_extra_integers vs (add_extra_integers n obj) = Some obj2 \<and>
            n_extra_integers obj2 = n \<and>
            (\<forall>i<n. get_extra_integer i obj2 = Some (vs ! i)) \<and>
            n_extra_integers (add_extra_integers m obj2) = m \<and>
            (\<forall>i<n. get_extra_integer i (add_extra_integers m obj2) = Some (vs ! i)) \<and>
            (\<forall>i. n \<le> i \<and> i < m \<longrightarrow> get_extra_integer i (add_extra_integers m obj2) = Some invalid_id)"
    using s l2 g2 g3 g4 add_extra_integers_length [of m ?o2] by blast
  have a: "extra_integers (add_system x) = extra_integers x"
    by (simp add: add_system_def)
  have b: "extra_integers (set_n_systems ns x) = extra_integers x"
    by (simp add: set_n_systems_def)
  have c: "\<forall>x'. set_n_vars_per_group s nvpg x = Some x' \<longrightarrow> extra_integers x' = extra_integers x"
    by (auto simp: set_n_vars_per_group_def split: if_splits)
  have d: "\<forall>i k. i < k \<and> i < n_extra_integers x \<longrightarrow>
            get_extra_integer i (add_extra_integers k x) = get_extra_integer i x"
    using add_extra_integers_kept by blast
  show ?thesis
    using first a b c d by blast
qed

theorem add_extra_integers_preserves_witness:
  "(\<exists>obj2. set_extra_integers [0, 1, 2, 3] (add_extra_integers 4 \<lparr> idx_buf = [], extra_integers = [] \<rparr>) = Some obj2 \<and>
      get_extra_integer 3 (add_extra_integers 7 obj2) = Some 3 \<and>
      get_extra_integer 4 (add_extra_integers 7 obj2) = Some invalid_id \<and>
      get_extra_integer 6 (add_extra_integers 7 obj2) = Some invalid_id)"
proof -
  have h1: "(4::nat) < 7" by simp
  have h2: "length [0, 1, 2, 3 :: dof_id_type] = 4" by simp
  from add_extra_integers_preserves [OF h1 h2, of "\<lparr> idx_buf = [], extra_integers = [] \<rparr>"]
  obtain obj2 where o:
    "set_extra_integers [0, 1, 2, 3] (add_extra_integers 4 \<lparr> idx_buf = [], extra_integers = [] \<rparr>) = Some obj2"
    "\<forall>i<4. get_extra_integer i (add_extra_integers 7 obj2) = Some ([0, 1, 2, 3] ! i)"
    "\<forall>i. 4 \<le> i \<and> i < 7 \<longrightarrow> get_extra_integer i (add_extra_integers 7 obj2) = Some invalid_id"
    by blast
  from o(2) have a: "get_extra_integer 3 (add_extra_integers 7 obj2) = Some 3"
    by simp
  from o(3) have b: "get_extra_integer 4 (add_extra_integers 7 obj2) = Some invalid_id"
    "get_extra_integer 6 (add_extra_integers 7 obj2) = Some invalid_id"
    by simp_all
  from o(1) a b show ?thesis by blast
qed

lemma byte_bit_bound: "bit (b :: 8 word) n \<Longrightarrow> n < 8"
  using bit_imp_le_length [of b n] by simp

lemma slot_bytes_bytes_slot:
  "slot_bytes (bytes_slot b0 b1 b2 b3) = [b0, b1, b2, b3]"
proof -
  have 0: "ucast (bytes_slot b0 b1 b2 b3) = b0"
    unfolding bytes_slot_def by (rule bit_word_eqI) (auto simp: bit_simps dest: byte_bit_bound)
  have 1: "ucast (drop_bit 8 (bytes_slot b0 b1 b2 b3)) = b1"
    unfolding bytes_slot_def by (rule bit_word_eqI) (auto simp: bit_simps dest: byte_bit_bound)
  have 2: "ucast (drop_bit 16 (bytes_slot b0 b1 b2 b3)) = b2"
    unfolding bytes_slot_def by (rule bit_word_eqI) (auto simp: bit_simps dest: byte_bit_bound)
  have 3: "ucast (drop_bit 24 (bytes_slot b0 b1 b2 b3)) = b3"
    unfolding bytes_slot_def by (rule bit_word_eqI) (auto simp: bit_simps dest: byte_bit_bound)
  show ?thesis by (simp add: slot_bytes_def 0 1 2 3)
qed

lemma length_slot_bytes [simp]: "length (slot_bytes w) = 4"
  by (simp add: slot_bytes_def)

lemma length_bytes_of_slots [simp]: "length (bytes_of_slots xs) = 4 * length xs"
  by (induction xs) (simp_all add: bytes_of_slots_def)

lemma bytes_of_slots_append:
  "bytes_of_slots (xs @ ys) = bytes_of_slots xs @ bytes_of_slots ys"
  by (simp add: bytes_of_slots_def)

lemma bytes_of_slots_take:
  "bytes_of_slots (take m xs) = take (4 * m) (bytes_of_slots xs)"
proof (induction xs arbitrary: m)
  case Nil
  then show ?case by (simp add: bytes_of_slots_def)
next
  case (Cons x xs)
  show ?case
  proof (cases m)
    case 0
    then show ?thesis by (simp add: bytes_of_slots_def)
  next
    case (Suc k)
    have "bytes_of_slots (take m (x # xs)) = slot_bytes x @ bytes_of_slots (take k xs)"
      using Suc by (simp add: bytes_of_slots_def)
    also have "\<dots> = slot_bytes x @ take (4 * k) (bytes_of_slots xs)"
      by (simp add: Cons.IH)
    also have "\<dots> = take (4 * m) (slot_bytes x @ bytes_of_slots xs)"
      using Suc by simp
    finally show ?thesis by (simp add: bytes_of_slots_def)
  qed
qed

lemma bytes_of_slots_of_bytes:
  "length bs = 4 * k \<Longrightarrow> bytes_of_slots (slots_of_bytes bs) = bs"
proof (induction k arbitrary: bs)
  case 0
  then show ?case by (simp add: bytes_of_slots_def)
next
  case (Suc k)
  from Suc.prems obtain b0 b1 b2 b3 rest where bs: "bs = b0 # b1 # b2 # b3 # rest"
    by (cases bs rule: slots_of_bytes.cases) simp_all
  with Suc.prems have "length rest = 4 * k" by simp
  then have "bytes_of_slots (slots_of_bytes rest) = rest" by (rule Suc.IH)
  then show ?case
    unfolding bs by (simp add: bytes_of_slots_def slot_bytes_bytes_slot)
qed

lemma length_slots_of_bytes:
  "length bs = 4 * k \<Longrightarrow> length (slots_of_bytes bs) = k"
  using length_bytes_of_slots [of "slots_of_bytes bs"] bytes_of_slots_of_bytes [of bs k]
  by simp

lemma run_fits:
  assumes "0 < sz"
  shows "sz \<le> 4 * slots_for sz"
proof -
  define t where "t = sz - 1"
  define q where "q = t div 4"
  define r where "r = t mod 4"
  have "q * 4 + r = t" by (simp add: q_def r_def)
  moreover have "r < 4" by (simp add: r_def)
  ultimately have "t < 4 * q + 4" by arith
  moreover have "sz = t + 1" using assms by (simp add: t_def)
  ultimately have "sz \<le> 4 * (q + 1)" by simp
  then show ?thesis
    by (simp add: slots_for_def sizeof_dof_id_type_def q_def t_def)
qed

lemma slots_for_ceiling:
  assumes "0 < sz"
  shows "slots_for sz = (sz + 3) div 4"
proof -
  have "sz + 3 = sz - 1 + 4" using assms by simp
  then have "(sz + 3) div 4 = (sz - 1 + 4) div 4" by simp
  also have "\<dots> = (sz - 1) div 4 + 1" by simp
  finally show ?thesis
    by (simp add: slots_for_def sizeof_dof_id_type_def)
qed

text \<open>
  Claim C6. Let \<open>value\<close> be the bytes of a value of any type \<open>T\<close> (of one byte as for
  \<open>char\<close>, of eight as for a double-precision \<open>Real\<close>, or any other size), and let the
  run of \<open>ceil(sizeof(T)/sizeof(slot))\<close> slots that starts at the index lie within the
  extra integers. Then \<open>set_extra_datum\<close> succeeds and keeps the number of slots,
  \<open>get_extra_datum\<close> at the same index returns exactly the bytes stored, and it still
  does after any later \<open>add_extra_integers\<close> that keeps the run in range. A \<open>char\<close>
  takes one slot and a \<open>Real\<close> of eight bytes two.
\<close>

theorem extra_datum_round_trip:
  assumes "value \<noteq> []" "index + slots_for (length value) \<le> n_extra_integers obj"
  shows "\<exists>obj'. set_extra_datum index value obj = Some obj' \<and>
           n_extra_integers obj' = n_extra_integers obj \<and>
           get_extra_datum index (length value) obj' = Some value \<and>
           (\<forall>m. index + slots_for (length value) \<le> m \<longrightarrow>
              get_extra_datum index (length value) (add_extra_integers m obj') = Some value) \<and>
           slots_for (length value) = (length value + 3) div 4 \<and>
           slots_for 1 = 1 \<and> slots_for 8 = 2"
proof -
  let ?n = "length (extra_integers obj)"
  let ?k = "length value"
  let ?mem = "bytes_of_slots (extra_integers obj)"
  let ?pos = "4 * index"
  let ?mem' = "take ?pos ?mem @ value @ drop (?pos + ?k) ?mem"
  let ?obj' = "obj\<lparr> extra_integers := slots_of_bytes ?mem' \<rparr>"
  have k: "0 < ?k" using assms(1) by simp
  have fits: "?pos + ?k \<le> 4 * ?n"
    using run_fits [OF k] assms(2) by (simp add: n_extra_integers_def)
  have len': "length ?mem' = 4 * ?n"
    using fits by simp
  have set: "set_extra_datum index value obj = Some ?obj'"
    using assms by (simp add: set_extra_datum_def Let_def sizeof_dof_id_type_def)
  have mem': "bytes_of_slots (extra_integers ?obj') = ?mem'"
    using bytes_of_slots_of_bytes [OF len'] by simp
  have n': "n_extra_integers ?obj' = n_extra_integers obj"
    using length_slots_of_bytes [OF len'] by (simp add: n_extra_integers_def)
  have rd: "take ?k (drop ?pos ?mem') = value"
    using fits by simp
  have get: "get_extra_datum index ?k ?obj' = Some value"
    using k assms(2) n' rd
    by (simp only: get_extra_datum_def mem' sizeof_dof_id_type_def) simp
  have later: "get_extra_datum index ?k (add_extra_integers m ?obj') = Some value"
    if m: "index + slots_for ?k \<le> m" for m
  proof -
    have fm: "?pos + ?k \<le> 4 * m"
      using run_fits [OF k] m by simp
    have "bytes_of_slots (extra_integers (add_extra_integers m ?obj')) =
            take (4 * m) ?mem' @ bytes_of_slots (replicate (m - length (slots_of_bytes ?mem')) invalid_id)"
      using mem' by (simp add: add_extra_integers_def bytes_of_slots_append bytes_of_slots_take)
    moreover have "take ?k (drop ?pos (take (4 * m) ?mem' @ rest)) = value" for rest
      using fits fm by simp
    ultimately have "take ?k (drop ?pos (bytes_of_slots (extra_integers (add_extra_integers m ?obj')))) = value"
      by simp
    moreover have "n_extra_integers (add_extra_integers m ?obj') = m"
      by (simp add: add_extra_integers_def n_extra_integers_def)
    ultimately show ?thesis
      using k m
      by (simp only: get_extra_datum_def sizeof_dof_id_type_def) simp
  qed
  have c: "slots_for ?k = (?k + 3) div 4"
    using k by (rule slots_for_ceiling)
  have d: "slots_for 1 = 1" "slots_for 8 = 2"
    by (simp_all add: slots_for_def sizeof_dof_id_type_def)
  have all_later: "\<forall>m. index + slots_for ?k \<le> m \<longrightarrow>
              get_extra_datum index ?k (add_extra_integers m ?obj') = Some value"
    using later by simp
  show ?thesis
    by (rule exI [of _ ?obj']) (intro conjI set n' get all_later c d)
qed


theorem extra_datum_round_trip_witness:
  "(\<exists>obj'. set_extra_datum 2 [0x18, 0x2D, 0x44, 0x54, 0xFB, 0x21, 0x09, 0x40]
              (add_extra_integers 9 \<lparr> idx_buf = [], extra_integers = [] \<rparr>) = Some obj' \<and>
           get_extra_datum 2 8 obj' = Some [0x18, 0x2D, 0x44, 0x54, 0xFB, 0x21, 0x09, 0x40] \<and>
           get_extra_datum 2 8 (add_extra_integers 6 obj') =
             Some [0x18, 0x2D, 0x44, 0x54, 0xFB, 0x21, 0x09, 0x40]) \<and>
   (\<exists>obj'. set_extra_datum 1 [0x31]
              (add_extra_integers 9 \<lparr> idx_buf = [], extra_integers = [] \<rparr>) = Some obj' \<and>
           get_extra_datum 1 1 obj' = Some [0x31] \<and>
           get_extra_datum 1 1 (add_extra_integers 6 obj') = Some [0x31])"
proof -
  let ?o = "add_extra_integers 9 \<lparr> idx_buf = [], extra_integers = [] \<rparr>"
  let ?pi = "[0x18, 0x2D, 0x44, 0x54, 0xFB, 0x21, 0x09, 0x40] :: 8 word list"
  have n: "n_extra_integers ?o = 9"
    by (simp add: add_extra_integers_def n_extra_integers_def)
  have s8: "slots_for 8 = 2" "slots_for 1 = 1"
    by (simp_all add: slots_for_def sizeof_dof_id_type_def)
  have l: "length ?pi = 8" "length [0x31 :: 8 word] = 1" by simp_all
  have p1: "?pi \<noteq> []" by simp
  have p2: "2 + slots_for (length ?pi) \<le> n_extra_integers ?o"
    unfolding l s8 n by simp
  have c1: "[0x31 :: 8 word] \<noteq> []" by simp
  have c2: "1 + slots_for (length [0x31 :: 8 word]) \<le> n_extra_integers ?o"
    unfolding l s8 n by simp
  from extra_datum_round_trip [OF p1 p2, unfolded l s8] obtain a where a:
    "set_extra_datum 2 ?pi ?o = Some a" "get_extra_datum 2 8 a = Some ?pi"
    "\<forall>m. 2 + 2 \<le> m \<longrightarrow> get_extra_datum 2 8 (add_extra_integers m a) = Some ?pi"
    by blast
  from a(3) have a3: "get_extra_datum 2 8 (add_extra_integers 6 a) = Some ?pi"
    by simp
  from extra_datum_round_trip [OF c1 c2, unfolded l s8] obtain b where b:
    "set_extra_datum 1 [0x31] ?o = Some b" "get_extra_datum 1 1 b = Some [0x31]"
    "\<forall>m. 1 + 1 \<le> m \<longrightarrow> get_extra_datum 1 1 (add_extra_integers m b) = Some [0x31]"
    by blast
  from b(3) have b3: "get_extra_datum 1 1 (add_extra_integers 6 b) = Some [0x31]"
    by simp
  from a(1,2) a3 have A: "\<exists>obj'. set_extra_datum 2 ?pi ?o = Some obj' \<and>
           get_extra_datum 2 8 obj' = Some ?pi \<and>
           get_extra_datum 2 8 (add_extra_integers 6 obj') = Some ?pi"
    by blast
  from b(1,2) b3 have B: "\<exists>obj'. set_extra_datum 1 [0x31] ?o = Some obj' \<and>
           get_extra_datum 1 1 obj' = Some [0x31] \<and>
           get_extra_datum 1 1 (add_extra_integers 6 obj') = Some [0x31]"
    by blast
  from A B show ?thesis by blast
qed

section \<open>Properties of the pyramid side keys\<close>

lemma sort_cong_mset:
  fixes xs ys :: "'a::linorder list"
  assumes "mset xs = mset ys"
  shows "sort xs = sort ys"
proof -
  have "mset (sort ys) = mset xs" using assms by simp
  moreover have "sorted (sort ys)" by simp
  ultimately show ?thesis by (rule properties_for_sort)
qed

lemma face_nodes3:
  assumes "face_nodes e [a, b, c] = Inr ids"
  shows "\<exists>n0 n1 n2. node_id e a = Inr n0 \<and> node_id e b = Inr n1 \<and> node_id e c = Inr n2 \<and>
           ids = [n0, n1, n2]"
proof -
  from assms obtain n0 where a: "node_id e a = Inr n0"
    by (cases "node_id e a") simp_all
  from assms a obtain n1 where b: "node_id e b = Inr n1"
    by (cases "node_id e b") simp_all
  from assms a b obtain n2 where c: "node_id e c = Inr n2"
    by (cases "node_id e c") simp_all
  from assms a b c have "ids = [n0, n1, n2]" by simp
  with a b c show ?thesis by blast
qed

lemma face_nodes4:
  assumes "face_nodes e [a, b, c, d] = Inr ids"
  shows "\<exists>n0 n1 n2 n3. node_id e a = Inr n0 \<and> node_id e b = Inr n1 \<and> node_id e c = Inr n2 \<and>
           node_id e d = Inr n3 \<and> ids = [n0, n1, n2, n3]"
proof -
  from assms obtain n0 where a: "node_id e a = Inr n0"
    by (cases "node_id e a") simp_all
  from assms a obtain n1 where b: "node_id e b = Inr n1"
    by (cases "node_id e b") simp_all
  from assms a b obtain n2 where c: "node_id e c = Inr n2"
    by (cases "node_id e c") simp_all
  from assms a b c obtain n3 where d: "node_id e d = Inr n3"
    by (cases "node_id e d") simp_all
  from assms a b c d have "ids = [n0, n1, n2, n3]" by simp
  with a b c d show ?thesis by blast
qed

lemma key_of_side_ptr:
  assumes "side_ptr side_nodes_map e s = Inr ids"
  shows "key hashword side_nodes_map e s = Inr (hashword (sort ids)) \<and>
         length ids = (if s = 4 then 4 else 3) \<and> s < 5"
proof -
  consider (tri) "s = 0 \<or> s = 1 \<or> s = 2 \<or> s = 3" | (quad) "s = 4" | (bad) "4 < s"
    by linarith
  then show ?thesis
  proof cases
    case tri
    then have "face_nodes e [side_nodes_map s 0, side_nodes_map s 1, side_nodes_map s 2] = Inr ids"
      using assms by (simp add: side_ptr_def)
    from face_nodes3 [OF this] obtain n0 n1 n2 where
      n: "node_id e (side_nodes_map s 0) = Inr n0" "node_id e (side_nodes_map s 1) = Inr n1"
         "node_id e (side_nodes_map s 2) = Inr n2" and ids: "ids = [n0, n1, n2]"
      by blast
    have k: "key hashword side_nodes_map e s = Inr (compute_key3 hashword n0 n1 n2)"
      unfolding key_def using tri by (simp only: if_True n sum.case)
    have "s \<noteq> 4" "s < 5" using tri by auto
    then show ?thesis
      unfolding k ids compute_key3_def by simp
  next
    case quad
    then have "face_nodes e [side_nodes_map s 0, side_nodes_map s 1, side_nodes_map s 2,
                 side_nodes_map s 3] = Inr ids"
      using assms by (simp add: side_ptr_def)
    from face_nodes4 [OF this] obtain n0 n1 n2 n3 where
      n: "node_id e (side_nodes_map s 0) = Inr n0" "node_id e (side_nodes_map s 1) = Inr n1"
         "node_id e (side_nodes_map s 2) = Inr n2" "node_id e (side_nodes_map s 3) = Inr n3"
      and ids: "ids = [n0, n1, n2, n3]"
      by blast
    have k: "key hashword side_nodes_map e s = Inr (compute_key4 hashword n0 n1 n2 n3)"
      unfolding key_def quad using n [unfolded quad] by simp
    show ?thesis
      unfolding k ids compute_key4_def using quad by simp
  next
    case bad
    then show ?thesis using assms by (simp add: side_ptr_def)
  qed
qed

lemma low_order_key_eq_key:
  "low_order_key hashword side_nodes_map e s = key hashword side_nodes_map e s"
  by (simp add: low_order_key_def key_def)

lemma mset_rotate1_eq: "mset (rotate1 xs) = mset xs"
  by (cases xs) simp_all

lemma mset_rotate_eq: "mset (rotate n xs) = mset xs"
  by (induction n) (simp_all add: mset_rotate1_eq)

lemma mset_cyclic_reflective:
  "mset (rotate n xs) = mset xs" "mset (rev (rotate n xs)) = mset xs"
  by (simp_all add: mset_rotate_eq)

text \<open>
  Claim C7. Let two pyramids each have a side (index below 5) whose face, as
  \<open>side_ptr\<close> builds it, carries the same node ids up to renumbering: in particular the
  second face's nodes may be any cyclic shift of the first's, or the mirror image of one.
  Then \<open>key\<close> (and \<open>low_order_key\<close>) return the same value on both. The key of a
  triangular side (0 to 3) is the hash of exactly its three node ids in increasing order,
  the key of the base (side 4) the hash of exactly its four.
\<close>

theorem Pyramid_key_renumbering_invariant:
  assumes "side_ptr side_nodes_map e1 s1 = Inr ids1"
    and "side_ptr side_nodes_map e2 s2 = Inr ids2"
    and "mset ids2 = mset ids1 \<or> (\<exists>n. ids2 = rotate n ids1) \<or> (\<exists>n. ids2 = rev (rotate n ids1))"
  shows "key hashword side_nodes_map e1 s1 = key hashword side_nodes_map e2 s2 \<and>
         low_order_key hashword side_nodes_map e1 s1 = low_order_key hashword side_nodes_map e2 s2 \<and>
         key hashword side_nodes_map e1 s1 = Inr (hashword (sort ids1)) \<and>
         s1 < 5 \<and> length ids1 = (if s1 = 4 then 4 else 3)"
proof -
  have m: "mset ids2 = mset ids1"
    using assms(3) mset_cyclic_reflective by auto
  have k1: "key hashword side_nodes_map e1 s1 = Inr (hashword (sort ids1))"
    and l1: "length ids1 = (if s1 = 4 then 4 else 3)" and s1: "s1 < 5"
    using key_of_side_ptr [OF assms(1)] by simp_all
  have k2: "key hashword side_nodes_map e2 s2 = Inr (hashword (sort ids2))"
    using key_of_side_ptr [OF assms(2)] by simp
  have "sort ids2 = sort ids1" by (rule sort_cong_mset [OF m])
  then show ?thesis
    using k1 k2 l1 s1 by (simp add: low_order_key_eq_key)
qed

theorem Pyramid_key_renumbering_invariant_witness:
  "key sum_list (\<lambda>s k. [[0, 1, 4, 99], [1, 2, 4, 99], [2, 3, 4, 99], [3, 0, 4, 99], [0, 3, 2, 1]] ! s ! k)
     \<lparr>pyramid_nodes = [10, 11, 12, 13, 14]\<rparr> 0 =
   key sum_list (\<lambda>s k. [[0, 1, 4, 99], [1, 2, 4, 99], [2, 3, 4, 99], [3, 0, 4, 99], [0, 3, 2, 1]] ! s ! k)
     \<lparr>pyramid_nodes = [11, 10, 30, 31, 14]\<rparr> 0 \<and>
   key sum_list (\<lambda>s k. [[0, 1, 4, 99], [1, 2, 4, 99], [2, 3, 4, 99], [3, 0, 4, 99], [0, 3, 2, 1]] ! s ! k)
     \<lparr>pyramid_nodes = [10, 11, 12, 13, 14]\<rparr> 0 = Inr 35"
proof -
  let ?m = "\<lambda>s k. [[0, 1, 4, 99], [1, 2, 4, 99], [2, 3, 4, 99], [3, 0, 4, 99], [0, 3, 2, 1::nat]] ! s ! k"
  let ?e1 = "\<lparr>pyramid_nodes = [10, 11, 12, 13, 14]\<rparr>"
  let ?e2 = "\<lparr>pyramid_nodes = [11, 10, 30, 31, 14]\<rparr>"
  have h1: "side_ptr ?m ?e1 0 = Inr [10, 11, 14]"
    by (simp add: side_ptr_def node_id_def)
  have h2: "side_ptr ?m ?e2 0 = Inr [11, 10, 14]"
    by (simp add: side_ptr_def node_id_def)
  have h3: "mset [11, 10, 14 :: dof_id_type] = mset [10, 11, 14] \<or>
            (\<exists>n. [11, 10, 14 :: dof_id_type] = rotate n [10, 11, 14]) \<or>
            (\<exists>n. [11, 10, 14 :: dof_id_type] = rev (rotate n [10, 11, 14]))"
    by simp
  note t = Pyramid_key_renumbering_invariant [OF h1 h2 h3, of sum_list]
  have a: "key sum_list ?m ?e1 0 = key sum_list ?m ?e2 0"
    using t by blast
  have b: "key sum_list ?m ?e1 0 = Inr (sum_list (sort [10, 11, 14]))"
    using t by blast
  have c: "sum_list (sort [10, 11, 14 :: dof_id_type]) = 35"
    by simp
  from a b show ?thesis unfolding c by blast
qed

section \<open>What the adjoint refinement estimator restores\<close>

lemma save_adjoint_preservation_fold:
  assumes inj: "inj_on (adjoint_vector_name c) {j. j < n \<and> cfg_qoi_set_has_index c j}"
    and k: "k \<le> n" and len: "length olds = n"
  shows "\<exists>olds' pres'.
           fold (save_adjoint_preservation c) [0..<k] (olds, s) =
             (olds', s\<lparr> sys_vector_preservation := pres' \<rparr>) \<and>
           length olds' = n \<and>
           (\<forall>j<k. cfg_qoi_set_has_index c j \<longrightarrow>
                olds' ! j = sys_vector_preservation s (adjoint_vector_name c j)) \<and>
           (\<forall>name. (\<forall>j<k. cfg_qoi_set_has_index c j \<longrightarrow> adjoint_vector_name c j \<noteq> name) \<longrightarrow>
                pres' name = sys_vector_preservation s name)"
  using k
proof (induction k)
  case 0
  have "s = s\<lparr> sys_vector_preservation := sys_vector_preservation s \<rparr>" by simp
  then show ?case using len by (metis fold_simps(1) not_less_zero upt_0)
next
  case (Suc k)
  then obtain olds' pres' where ih:
    "fold (save_adjoint_preservation c) [0..<k] (olds, s) =
       (olds', s\<lparr> sys_vector_preservation := pres' \<rparr>)"
    "length olds' = n"
    "\<forall>j<k. cfg_qoi_set_has_index c j \<longrightarrow>
        olds' ! j = sys_vector_preservation s (adjoint_vector_name c j)"
    "\<forall>name. (\<forall>j<k. cfg_qoi_set_has_index c j \<longrightarrow> adjoint_vector_name c j \<noteq> name) \<longrightarrow>
        pres' name = sys_vector_preservation s name"
    by auto
  have kn: "k < n" using Suc.prems by simp
  show ?case
  proof (cases "cfg_qoi_set_has_index c k")
    case False
    have "fold (save_adjoint_preservation c) [0..<Suc k] (olds, s) =
            (olds', s\<lparr> sys_vector_preservation := pres' \<rparr>)"
      using ih(1) False by (simp add: save_adjoint_preservation_def)
    moreover have "\<forall>j<Suc k. cfg_qoi_set_has_index c j \<longrightarrow>
        olds' ! j = sys_vector_preservation s (adjoint_vector_name c j)"
      using ih(3) False by (auto simp: less_Suc_eq)
    moreover have "\<forall>name. (\<forall>j<Suc k. cfg_qoi_set_has_index c j \<longrightarrow> adjoint_vector_name c j \<noteq> name) \<longrightarrow>
        pres' name = sys_vector_preservation s name"
      using ih(4) False by (auto simp: less_Suc_eq)
    ultimately show ?thesis using ih(2) by blast
  next
    case True
    let ?nm = "adjoint_vector_name c k"
    have fresh: "\<forall>j<k. cfg_qoi_set_has_index c j \<longrightarrow> adjoint_vector_name c j \<noteq> ?nm"
    proof (intro allI impI)
      fix j assume j: "j < k" "cfg_qoi_set_has_index c j"
      show "adjoint_vector_name c j \<noteq> ?nm"
      proof
        assume "adjoint_vector_name c j = ?nm"
        with inj j kn True have "j = k" by (auto dest!: inj_onD)
        with j show False by simp
      qed
    qed
    have old: "pres' ?nm = sys_vector_preservation s ?nm"
      using ih(4) fresh by blast
    let ?olds = "olds'[k := pres' ?nm]"
    let ?pres = "pres'(?nm := True)"
    have step: "fold (save_adjoint_preservation c) [0..<Suc k] (olds, s) =
            (?olds, s\<lparr> sys_vector_preservation := ?pres \<rparr>)"
      using ih(1) True by (simp add: save_adjoint_preservation_def set_vector_preservation_def)
    have a: "length ?olds = n" using ih(2) by simp
    have b: "\<forall>j<Suc k. cfg_qoi_set_has_index c j \<longrightarrow>
        ?olds ! j = sys_vector_preservation s (adjoint_vector_name c j)"
      using ih(2,3) old kn by (auto simp: less_Suc_eq nth_list_update)
    have d: "\<forall>name. (\<forall>j<Suc k. cfg_qoi_set_has_index c j \<longrightarrow> adjoint_vector_name c j \<noteq> name) \<longrightarrow>
        ?pres name = sys_vector_preservation s name"
      using ih(4) True by (auto simp: less_Suc_eq)
    show ?thesis using step a b d by blast
  qed
qed

lemma restore_adjoint_preservation_fold:
  assumes inj: "inj_on (adjoint_vector_name c) {j. j < n \<and> cfg_qoi_set_has_index c j}"
    and k: "k \<le> n"
  shows "\<exists>pres'.
           fold (restore_adjoint_preservation c olds) [0..<k] s =
             s\<lparr> sys_vector_preservation := pres' \<rparr> \<and>
           (\<forall>j<k. cfg_qoi_set_has_index c j \<longrightarrow> pres' (adjoint_vector_name c j) = olds ! j)"
  using k
proof (induction k)
  case 0
  have "s = s\<lparr> sys_vector_preservation := sys_vector_preservation s \<rparr>" by simp
  then show ?case by (metis fold_simps(1) not_less_zero upt_0)
next
  case (Suc k)
  then obtain pres' where ih:
    "fold (restore_adjoint_preservation c olds) [0..<k] s = s\<lparr> sys_vector_preservation := pres' \<rparr>"
    "\<forall>j<k. cfg_qoi_set_has_index c j \<longrightarrow> pres' (adjoint_vector_name c j) = olds ! j"
    by auto
  have kn: "k < n" using Suc.prems by simp
  show ?case
  proof (cases "cfg_qoi_set_has_index c k")
    case False
    have "fold (restore_adjoint_preservation c olds) [0..<Suc k] s =
            s\<lparr> sys_vector_preservation := pres' \<rparr>"
      using ih(1) False by (simp add: restore_adjoint_preservation_def)
    moreover have "\<forall>j<Suc k. cfg_qoi_set_has_index c j \<longrightarrow> pres' (adjoint_vector_name c j) = olds ! j"
      using ih(2) False by (auto simp: less_Suc_eq)
    ultimately show ?thesis by blast
  next
    case True
    let ?nm = "adjoint_vector_name c k"
    have fresh: "\<forall>j<k. cfg_qoi_set_has_index c j \<longrightarrow> adjoint_vector_name c j \<noteq> ?nm"
    proof (intro allI impI)
      fix j assume j: "j < k" "cfg_qoi_set_has_index c j"
      show "adjoint_vector_name c j \<noteq> ?nm"
      proof
        assume "adjoint_vector_name c j = ?nm"
        with inj j kn True have "j = k" by (auto dest!: inj_onD)
        with j show False by simp
      qed
    qed
    let ?pres = "pres'(?nm := olds ! k)"
    have step: "fold (restore_adjoint_preservation c olds) [0..<Suc k] s =
            s\<lparr> sys_vector_preservation := ?pres \<rparr>"
      using ih(1) True by (simp add: restore_adjoint_preservation_def set_vector_preservation_def)
    have "\<forall>j<Suc k. cfg_qoi_set_has_index c j \<longrightarrow> ?pres (adjoint_vector_name c j) = olds ! j"
      using ih(2) fresh by (auto simp: less_Suc_eq)
    with step show ?thesis by blast
  qed
qed


lemma take_backup_facts:
  assumes inj: "inj_on (adjoint_vector_name c) {j. j < cfg_n_qois c \<and> cfg_qoi_set_has_index c j}"
    and tb: "take_backup c s = (b, s')"
  shows "coarse_vectors b = sys_vectors s"
    and "coarse_solution b = sys_solution s"
    and "coarse_local_solution b = sys_current_local_solution s"
    and "old_projection_setting b = sys_project_solution_on_reinit s"
    and "old_project_with_constraints_setting b = sys_project_with_constraints s"
    and "old_partitioner b = mesh_partitioner s"
    and "old_renumbering_setting b = mesh_allow_renumbering s"
    and "\<forall>j<cfg_n_qois c. cfg_qoi_set_has_index c j \<longrightarrow>
           old_adjoints_projection_settings b ! j = sys_vector_preservation s (adjoint_vector_name c j)"
proof -
  from save_adjoint_preservation_fold [OF inj order_refl, of "replicate (cfg_n_qois c) False" s]
  obtain olds' pres' where f:
    "fold (save_adjoint_preservation c) [0..<cfg_n_qois c] (replicate (cfg_n_qois c) False, s) =
       (olds', s\<lparr> sys_vector_preservation := pres' \<rparr>)"
    "\<forall>j<cfg_n_qois c. cfg_qoi_set_has_index c j \<longrightarrow>
        olds' ! j = sys_vector_preservation s (adjoint_vector_name c j)"
    by auto
  from tb have b: "b = \<lparr> coarse_vectors = sys_vectors s,
             coarse_solution = sys_solution s,
             coarse_local_solution = sys_current_local_solution s,
             old_adjoints_projection_settings = olds',
             old_projection_setting = sys_project_solution_on_reinit s,
             old_project_with_constraints_setting = sys_project_with_constraints s,
             old_partitioner = mesh_partitioner s,
             old_renumbering_setting = mesh_allow_renumbering s \<rparr>"
    by (simp add: take_backup_def f(1))
  show "coarse_vectors b = sys_vectors s" "coarse_solution b = sys_solution s"
    "coarse_local_solution b = sys_current_local_solution s"
    "old_projection_setting b = sys_project_solution_on_reinit s"
    "old_project_with_constraints_setting b = sys_project_with_constraints s"
    "old_partitioner b = mesh_partitioner s"
    "old_renumbering_setting b = mesh_allow_renumbering s"
    by (simp_all add: b)
  show "\<forall>j<cfg_n_qois c. cfg_qoi_set_has_index c j \<longrightarrow>
           old_adjoints_projection_settings b ! j = sys_vector_preservation s (adjoint_vector_name c j)"
    using f(2) by (simp add: b)
qed

lemma restore_facts:
  assumes inj: "inj_on (adjoint_vector_name c) {j. j < cfg_n_qois c \<and> cfg_qoi_set_has_index c j}"
  shows "sys_project_solution_on_reinit (restore c b s) = old_projection_setting b"
    and "sys_project_with_constraints (restore c b s) = old_project_with_constraints_setting b"
    and "sys_solution (restore c b s) = coarse_solution b"
    and "sys_current_local_solution (restore c b s) = coarse_local_solution b"
    and "mesh_partitioner (restore c b s) = old_partitioner b"
    and "mesh_allow_renumbering (restore c b s) = old_renumbering_setting b"
    and "sys_vectors (restore c b s) =
           (\<lambda>var_name. case sys_vectors s var_name of
                          None \<Rightarrow> None
                        | Some v \<Rightarrow> (case coarse_vectors b var_name of
                                       Some coarsevec \<Rightarrow> Some coarsevec | None \<Rightarrow> Some v))"
    and "\<forall>j<cfg_n_qois c. cfg_qoi_set_has_index c j \<longrightarrow>
           sys_vector_preservation (restore c b s) (adjoint_vector_name c j) =
             old_adjoints_projection_settings b ! j"
    and "out_error_per_cell (restore c b s) = out_error_per_cell s"
    and "out_computed_global_QoI_errors (restore c b s) = out_computed_global_QoI_errors s"
proof -
  let ?s0 = "s\<lparr> sys_project_solution_on_reinit := old_projection_setting b,
                 sys_project_with_constraints := old_project_with_constraints_setting b \<rparr>"
  from restore_adjoint_preservation_fold [OF inj order_refl,
      of "old_adjoints_projection_settings b" ?s0]
  obtain pres' where f:
    "fold (restore_adjoint_preservation c (old_adjoints_projection_settings b))
       [0..<cfg_n_qois c] ?s0 = ?s0\<lparr> sys_vector_preservation := pres' \<rparr>"
    "\<forall>j<cfg_n_qois c. cfg_qoi_set_has_index c j \<longrightarrow>
        pres' (adjoint_vector_name c j) = old_adjoints_projection_settings b ! j"
    by auto
  have r: "restore c b s =
     s\<lparr> sys_project_solution_on_reinit := old_projection_setting b,
         sys_project_with_constraints := old_project_with_constraints_setting b,
         sys_vector_preservation := pres',
         sys_solution := coarse_solution b,
         sys_current_local_solution := coarse_local_solution b,
         sys_vectors :=
           (\<lambda>var_name. case sys_vectors s var_name of
                          None \<Rightarrow> None
                        | Some v \<Rightarrow> (case coarse_vectors b var_name of
                                       Some coarsevec \<Rightarrow> Some coarsevec | None \<Rightarrow> Some v)),
         mesh_partitioner := old_partitioner b,
         mesh_allow_renumbering := old_renumbering_setting b \<rparr>"
    unfolding restore_def Let_def f(1) by simp
  show "sys_project_solution_on_reinit (restore c b s) = old_projection_setting b"
    "sys_project_with_constraints (restore c b s) = old_project_with_constraints_setting b"
    "sys_solution (restore c b s) = coarse_solution b"
    "sys_current_local_solution (restore c b s) = coarse_local_solution b"
    "mesh_partitioner (restore c b s) = old_partitioner b"
    "mesh_allow_renumbering (restore c b s) = old_renumbering_setting b"
    "sys_vectors (restore c b s) =
           (\<lambda>var_name. case sys_vectors s var_name of
                          None \<Rightarrow> None
                        | Some v \<Rightarrow> (case coarse_vectors b var_name of
                                       Some coarsevec \<Rightarrow> Some coarsevec | None \<Rightarrow> Some v))"
    "out_error_per_cell (restore c b s) = out_error_per_cell s"
    "out_computed_global_QoI_errors (restore c b s) = out_computed_global_QoI_errors s"
    by (simp_all add: r)
  show "\<forall>j<cfg_n_qois c. cfg_qoi_set_has_index c j \<longrightarrow>
           sys_vector_preservation (restore c b s) (adjoint_vector_name c j) =
             old_adjoints_projection_settings b ! j"
    using f(2) by (simp add: r)
qed

lemma estimate_error_stages:
  assumes "AdjointRefinementEstimator_estimate_error c s0 = Some s'"
  shows "\<exists>s1 b s1' s2. before_backup c s0 = Some s1 \<and> take_backup c s1 = (b, s1') \<and>
           refined_work c s1' = Some s2 \<and>
           s' = (restore c b s2)\<lparr> out_error_per_cell :=
                  reduce_error_vector c (out_error_per_cell (restore c b s2)) \<rparr>"
proof -
  from assms obtain s1 where s1: "before_backup c s0 = Some s1"
    by (cases "before_backup c s0") (simp_all add: AdjointRefinementEstimator_estimate_error_def)
  obtain b s1' where tb: "take_backup c s1 = (b, s1')"
    by (cases "take_backup c s1")
  from assms s1 tb obtain s2 where s2: "refined_work c s1' = Some s2"
    by (cases "refined_work c s1'") (simp_all add: AdjointRefinementEstimator_estimate_error_def)
  from assms s1 tb s2 have "s' = (restore c b s2)\<lparr> out_error_per_cell :=
                  reduce_error_vector c (out_error_per_cell (restore c b s2)) \<rparr>"
    by (simp add: AdjointRefinementEstimator_estimate_error_def Let_def)
  with s1 tb s2 show ?thesis by blast
qed

lemma fold_Some_id:
  assumes "\<And>j r. j \<in> set js \<Longrightarrow> f j (Some s) = Some s"
  shows "fold f js (Some s) = Some s"
  using assms by (induction js) simp_all

lemma before_backup_nothing_to_do:
  assumes "sys_adjoint_already_solved s"
    and "\<forall>j<cfg_n_qois c. cfg_qoi_set_has_index c j \<longrightarrow> \<not> has_adjoint_dirichlet_boundaries c j"
  shows "before_backup c s = Some s"
proof -
  have "coarse_adjoint_solve c s = s"
    using assms(1) by (simp add: coarse_adjoint_solve_def)
  moreover have "fold (coarse_lift_function c) [0..<cfg_n_qois c] (Some s) = Some s"
    by (rule fold_Some_id) (use assms(2) in \<open>auto simp: coarse_lift_function_def\<close>)
  ultimately show ?thesis by (simp add: before_backup_def)
qed

text \<open>
  Claim C8, as amended. When \<open>estimate_error\<close> returns, whatever the solves, the
  refinement and the coarsening did, the following are what they were when the backups
  were taken, that is after the coarse adjoint solve and the construction of the lift
  functions: \<open>project_solution_on_reinit\<close>, \<open>project_with_constraints\<close>, the preservation
  setting of the adjoint vector of each QoI of the set (the adjoint vectors having
  distinct names), the solution, the current local solution, every named vector that
  existed then and still exists, the partitioner and the renumbering flag. When the
  adjoint was already solved and no QoI of the set has heterogeneous adjoint Dirichlet
  boundaries, nothing happens before the backups, so these are the values before the
  call.
\<close>

theorem estimate_error_restores:
  assumes run: "AdjointRefinementEstimator_estimate_error c s0 = Some s'"
    and inj: "inj_on (adjoint_vector_name c) {j. j < cfg_n_qois c \<and> cfg_qoi_set_has_index c j}"
  shows "\<exists>s1. before_backup c s0 = Some s1 \<and>
           sys_project_solution_on_reinit s' = sys_project_solution_on_reinit s1 \<and>
           sys_project_with_constraints s' = sys_project_with_constraints s1 \<and>
           (\<forall>j<cfg_n_qois c. cfg_qoi_set_has_index c j \<longrightarrow>
              sys_vector_preservation s' (adjoint_vector_name c j) =
              sys_vector_preservation s1 (adjoint_vector_name c j)) \<and>
           sys_solution s' = sys_solution s1 \<and>
           sys_current_local_solution s' = sys_current_local_solution s1 \<and>
           (\<forall>name v. sys_vectors s1 name = Some v \<and> sys_vectors s' name \<noteq> None \<longrightarrow>
              sys_vectors s' name = Some v) \<and>
           mesh_partitioner s' = mesh_partitioner s1 \<and>
           mesh_allow_renumbering s' = mesh_allow_renumbering s1 \<and>
           (sys_adjoint_already_solved s0 \<and>
            (\<forall>j<cfg_n_qois c. cfg_qoi_set_has_index c j \<longrightarrow> \<not> has_adjoint_dirichlet_boundaries c j)
              \<longrightarrow> s1 = s0)"
proof -
  from estimate_error_stages [OF run] obtain s1 b s1' s2 where
    s1: "before_backup c s0 = Some s1" and tb: "take_backup c s1 = (b, s1')"
    and s': "s' = (restore c b s2)\<lparr> out_error_per_cell :=
                  reduce_error_vector c (out_error_per_cell (restore c b s2)) \<rparr>"
    by blast
  note bk = take_backup_facts [OF inj tb]
  note rs = restore_facts [OF inj, of b s2]
  have 1: "sys_project_solution_on_reinit s' = sys_project_solution_on_reinit s1"
    by (simp add: s' rs(1) bk(4))
  have 2: "sys_project_with_constraints s' = sys_project_with_constraints s1"
    by (simp add: s' rs(2) bk(5))
  have 3: "\<forall>j<cfg_n_qois c. cfg_qoi_set_has_index c j \<longrightarrow>
              sys_vector_preservation s' (adjoint_vector_name c j) =
              sys_vector_preservation s1 (adjoint_vector_name c j)"
    using rs(8) bk(8) by (simp add: s')
  have 4: "sys_solution s' = sys_solution s1"
    by (simp add: s' rs(3) bk(2))
  have 5: "sys_current_local_solution s' = sys_current_local_solution s1"
    by (simp add: s' rs(4) bk(3))
  have 6: "\<forall>name v. sys_vectors s1 name = Some v \<and> sys_vectors s' name \<noteq> None \<longrightarrow>
              sys_vectors s' name = Some v"
    by (auto simp: s' rs(7) bk(1) split: option.splits)
  have 7: "mesh_partitioner s' = mesh_partitioner s1"
    by (simp add: s' rs(5) bk(6))
  have 8: "mesh_allow_renumbering s' = mesh_allow_renumbering s1"
    by (simp add: s' rs(6) bk(7))
  have 9: "sys_adjoint_already_solved s0 \<and>
            (\<forall>j<cfg_n_qois c. cfg_qoi_set_has_index c j \<longrightarrow> \<not> has_adjoint_dirichlet_boundaries c j)
              \<longrightarrow> s1 = s0"
    using before_backup_nothing_to_do [of s0 c] s1 by auto
  show ?thesis
    using s1 1 2 3 4 5 6 7 8 9 by blast
qed


theorem estimate_error_restores_witness:
  "(\<exists>s'. AdjointRefinementEstimator_estimate_error frame_example_calls frame_example_state = Some s' \<and>
      sys_project_solution_on_reinit s' = False \<and> sys_project_with_constraints s' = True \<and>
      sys_vector_preservation s' ''adjoint_solution0'' = False \<and>
      sys_solution s' = 3 \<and> sys_current_local_solution s' = 3 \<and>
      sys_vectors s' ''RHS Vector'' = Some 7 \<and> sys_vectors s' ''adjoint_solution0'' = Some 1 \<and>
      mesh_partitioner s' = Some () \<and> mesh_allow_renumbering s' = True) \<and>
   (\<exists>s'. AdjointRefinementEstimator_estimate_error frame_example_calls frame_example_state_solved = Some s' \<and>
      sys_vectors frame_example_state_solved ''adjoint_solution0'' = Some 5 \<and>
      sys_vectors s' ''adjoint_solution0'' = Some 5 \<and>
      sys_vectors s' ''RHS Vector'' = Some 7 \<and> sys_solution s' = 3)"
proof -
  have inj: "inj_on (adjoint_vector_name frame_example_calls)
               {j. j < cfg_n_qois frame_example_calls \<and> cfg_qoi_set_has_index frame_example_calls j}"
    by (simp add: frame_example_calls_def inj_on_def)
  have n1: "cfg_n_qois frame_example_calls = 1" "cfg_qoi_set_has_index frame_example_calls 0"
    by (simp_all add: frame_example_calls_def)
  have n0: "adjoint_vector_name frame_example_calls 0 = ''adjoint_solution0''"
    by code_simp
  have "AdjointRefinementEstimator_estimate_error frame_example_calls frame_example_state \<noteq> None"
    by code_simp
  then obtain s' where s': "AdjointRefinementEstimator_estimate_error frame_example_calls
      frame_example_state = Some s'"
    by blast
  have ex: "sys_vectors s' ''RHS Vector'' \<noteq> None" "sys_vectors s' ''adjoint_solution0'' \<noteq> None"
  proof -
    have "map_option (\<lambda>s'. (sys_vectors s' ''RHS Vector'' \<noteq> None,
             sys_vectors s' ''adjoint_solution0'' \<noteq> None))
           (AdjointRefinementEstimator_estimate_error frame_example_calls frame_example_state) =
          Some (True, True)"
      by code_simp
    then show "sys_vectors s' ''RHS Vector'' \<noteq> None" "sys_vectors s' ''adjoint_solution0'' \<noteq> None"
      by (simp_all add: s')
  qed
  have "map_option (\<lambda>s. (sys_project_solution_on_reinit s, sys_project_with_constraints s,
           sys_vector_preservation s ''adjoint_solution0'', sys_solution s,
           sys_current_local_solution s, sys_vectors s ''RHS Vector'',
           sys_vectors s ''adjoint_solution0'', mesh_partitioner s, mesh_allow_renumbering s))
         (before_backup frame_example_calls frame_example_state) =
        Some (False, True, False, 3, 3, Some 7, Some 1, Some (), True)"
    by code_simp
  moreover from estimate_error_restores [OF s' inj] obtain s1 where
    t: "before_backup frame_example_calls frame_example_state = Some s1"
      "sys_project_solution_on_reinit s' = sys_project_solution_on_reinit s1"
      "sys_project_with_constraints s' = sys_project_with_constraints s1"
      "\<forall>j<cfg_n_qois frame_example_calls. cfg_qoi_set_has_index frame_example_calls j \<longrightarrow>
          sys_vector_preservation s' (adjoint_vector_name frame_example_calls j) =
          sys_vector_preservation s1 (adjoint_vector_name frame_example_calls j)"
      "sys_solution s' = sys_solution s1"
      "sys_current_local_solution s' = sys_current_local_solution s1"
      "\<forall>name v. sys_vectors s1 name = Some v \<and> sys_vectors s' name \<noteq> None \<longrightarrow>
          sys_vectors s' name = Some v"
      "mesh_partitioner s' = mesh_partitioner s1"
      "mesh_allow_renumbering s' = mesh_allow_renumbering s1"
    by blast
  ultimately have s1: "sys_project_solution_on_reinit s1 = False"
    "sys_project_with_constraints s1 = True"
    "sys_vector_preservation s1 ''adjoint_solution0'' = False"
    "sys_solution s1 = 3" "sys_current_local_solution s1 = 3"
    "sys_vectors s1 ''RHS Vector'' = Some 7" "sys_vectors s1 ''adjoint_solution0'' = Some 1"
    "mesh_partitioner s1 = Some ()" "mesh_allow_renumbering s1 = True"
    by simp_all
  have p: "sys_vector_preservation s' ''adjoint_solution0'' = False"
    using t(4) n1 n0 s1(3) by auto
  have v: "sys_vectors s' ''RHS Vector'' = Some 7" "sys_vectors s' ''adjoint_solution0'' = Some 1"
    using t(7) s1(6,7) ex by blast+
  have first: "\<exists>s'. AdjointRefinementEstimator_estimate_error frame_example_calls frame_example_state = Some s' \<and>
      sys_project_solution_on_reinit s' = False \<and> sys_project_with_constraints s' = True \<and>
      sys_vector_preservation s' ''adjoint_solution0'' = False \<and>
      sys_solution s' = 3 \<and> sys_current_local_solution s' = 3 \<and>
      sys_vectors s' ''RHS Vector'' = Some 7 \<and> sys_vectors s' ''adjoint_solution0'' = Some 1 \<and>
      mesh_partitioner s' = Some () \<and> mesh_allow_renumbering s' = True"
    using s' t(2,3,5,6,8,9) s1 p v by simp
  have "AdjointRefinementEstimator_estimate_error frame_example_calls frame_example_state_solved \<noteq> None"
    by code_simp
  then obtain r' where r': "AdjointRefinementEstimator_estimate_error frame_example_calls
      frame_example_state_solved = Some r'"
    by blast
  have rex: "sys_vectors r' ''RHS Vector'' \<noteq> None" "sys_vectors r' ''adjoint_solution0'' \<noteq> None"
  proof -
    have "map_option (\<lambda>s'. (sys_vectors s' ''RHS Vector'' \<noteq> None,
             sys_vectors s' ''adjoint_solution0'' \<noteq> None))
           (AdjointRefinementEstimator_estimate_error frame_example_calls frame_example_state_solved) =
          Some (True, True)"
      by code_simp
    then show "sys_vectors r' ''RHS Vector'' \<noteq> None" "sys_vectors r' ''adjoint_solution0'' \<noteq> None"
      by (simp_all add: r')
  qed
  have pre: "sys_adjoint_already_solved frame_example_state_solved"
    "\<forall>j<cfg_n_qois frame_example_calls. cfg_qoi_set_has_index frame_example_calls j \<longrightarrow>
        \<not> has_adjoint_dirichlet_boundaries frame_example_calls j"
    by (simp_all add: frame_example_state_solved_def frame_example_calls_def)
  have st: "sys_vectors frame_example_state_solved ''adjoint_solution0'' = Some 5"
    "sys_vectors frame_example_state_solved ''RHS Vector'' = Some 7"
    "sys_solution frame_example_state_solved = 3"
    by (simp_all add: frame_example_state_solved_def frame_example_state_def)
  from estimate_error_restores [OF r' inj] pre have
    u: "sys_solution r' = sys_solution frame_example_state_solved"
      "\<forall>name v. sys_vectors frame_example_state_solved name = Some v \<and> sys_vectors r' name \<noteq> None \<longrightarrow>
          sys_vectors r' name = Some v"
    by auto
  have "sys_vectors r' ''adjoint_solution0'' = Some 5" "sys_vectors r' ''RHS Vector'' = Some 7"
    using u(2) st(1,2) rex by blast+
  with r' u(1) st have second: "\<exists>s'. AdjointRefinementEstimator_estimate_error frame_example_calls frame_example_state_solved = Some s' \<and>
      sys_vectors frame_example_state_solved ''adjoint_solution0'' = Some 5 \<and>
      sys_vectors s' ''adjoint_solution0'' = Some 5 \<and>
      sys_vectors s' ''RHS Vector'' = Some 7 \<and> sys_solution s' = 3"
    by simp
  from first second show ?thesis by (rule conjI)
qed

text \<open>
  Claim C8 as worded fails: the coarse adjoint solve runs before the vectors are backed
  up, so a named vector that existed before the call (here the adjoint solution, 5
  before the call) comes back with the value the solve gave it (1), not the value it
  had before the call.
\<close>

theorem estimate_error_adjoint_vector_counterexample:
  "sys_vectors frame_example_state ''adjoint_solution0'' = Some 5 \<and>
   map_option (\<lambda>s'. sys_vectors s' ''adjoint_solution0'')
     (AdjointRefinementEstimator_estimate_error frame_example_calls frame_example_state) =
   Some (Some 1)"
  by code_simp

section \<open>Properties of the reference element cache\<close>

lemma read_all_ok:
  assumes "\<forall>t \<in> set ts. ref_data t \<noteq> None" and "singleton_cache c \<noteq> None"
  shows "fst (read_all ref_data ts c) = None \<and>
         ref_elem_map (snd (read_all ref_data ts c)) =
           (\<lambda>t. if t \<in> set ts then ref_data t else ref_elem_map c t) \<and>
         singleton_cache (snd (read_all ref_data ts c)) \<noteq> None"
  using assms
proof (induction ts arbitrary: c)
  case Nil
  then show ?case by (simp add: fun_eq_iff)
next
  case (Cons t ts)
  from Cons.prems obtain u where u: "ref_data t = Some u" by auto
  let ?c' = "c\<lparr> singleton_cache := Some (the (singleton_cache c) @ [u]),
                 ref_elem_map := (ref_elem_map c)(t := Some u) \<rparr>"
  have step: "read_all ref_data (t # ts) c = read_all ref_data ts ?c'"
    by (simp add: read_ref_elem_def u)
  have ih: "fst (read_all ref_data ts ?c') = None \<and>
         ref_elem_map (snd (read_all ref_data ts ?c')) =
           (\<lambda>x. if x \<in> set ts then ref_data x else ref_elem_map ?c' x) \<and>
         singleton_cache (snd (read_all ref_data ts ?c')) \<noteq> None"
    using Cons.IH [of ?c'] Cons.prems by simp
  show ?case
    unfolding step using ih u by (auto simp: fun_eq_iff)
qed

lemma init_ref_elem_table_first:
  assumes "\<forall>t \<in> set ref_elem_file. ref_data t \<noteq> None"
  shows "fst (init_ref_elem_table ref_data ref_cache_init) = None"
    and "ref_elem_map (snd (init_ref_elem_table ref_data ref_cache_init)) =
           (\<lambda>t. if t \<in> set ref_elem_file then ref_data t else None)"
    and "singleton_cache (snd (init_ref_elem_table ref_data ref_cache_init)) \<noteq> None"
proof -
  let ?c0 = "ref_cache_init\<lparr> singleton_cache := Some [] \<rparr> :: 'a ref_cache"
  have c0: "singleton_cache ?c0 \<noteq> None" by simp
  have e: "init_ref_elem_table ref_data ref_cache_init = read_all ref_data ref_elem_file ?c0"
    by (simp add: init_ref_elem_table_def ref_cache_init_def)
  note r = read_all_ok [OF assms c0]
  show "fst (init_ref_elem_table ref_data ref_cache_init) = None"
    unfolding e using r by blast
  show "ref_elem_map (snd (init_ref_elem_table ref_data ref_cache_init)) =
           (\<lambda>t. if t \<in> set ref_elem_file then ref_data t else None)"
    unfolding e using r by (auto simp: ref_cache_init_def fun_eq_iff)
  show "singleton_cache (snd (init_ref_elem_table ref_data ref_cache_init)) \<noteq> None"
    unfolding e using r by blast
qed

lemma init_ref_elem_table_again:
  "singleton_cache c \<noteq> None \<Longrightarrow> init_ref_elem_table ref_data c = (None, c)"
  by (simp add: init_ref_elem_table_def)

lemma get_state:
  assumes "\<forall>t \<in> set ref_elem_file. ref_data t \<noteq> None"
  shows "snd (get ref_data t0 ref_cache_init) = snd (init_ref_elem_table ref_data ref_cache_init)"
  using init_ref_elem_table_first(1) [OF assms]
  by (simp add: get_def Let_def split: prod.splits option.splits)

lemma get_result:
  assumes ok: "\<forall>t \<in> set ref_elem_file. ref_data t \<noteq> None"
    and c: "c = ref_cache_init \<or> c = snd (get ref_data t0 ref_cache_init)"
  shows "fst (get ref_data type_in c) =
           (if shell_base_type type_in \<in> set ref_elem_file \<and> type_in \<noteq> INVALID_ELEM
            then Inr (the (ref_data (shell_base_type type_in)))
            else Inl (NoReferenceElemData type_in))"
proof -
  let ?p = "snd (init_ref_elem_table ref_data ref_cache_init)"
  have init: "init_ref_elem_table ref_data c = (None, ?p)"
  proof (cases "c = ref_cache_init")
    case True
    then show ?thesis
      using init_ref_elem_table_first(1) [OF ok] by (simp add: prod_eq_iff)
  next
    case False
    with c have "c = ?p" by (simp add: get_state [OF ok])
    then show ?thesis
      using init_ref_elem_table_first(3) [OF ok] init_ref_elem_table_again [of c ref_data]
      by simp
  qed
  have m: "ref_elem_map ?p = (\<lambda>t. if t \<in> set ref_elem_file then ref_data t else None)"
    by (rule init_ref_elem_table_first(2) [OF ok])
  show ?thesis
    using ok by (auto simp: get_def Let_def init m)
qed

lemma shell_base_type_shells:
  "shell_base_type TRISHELL3 = TRI3"
  "shell_base_type QUADSHELL4 = QUAD4"
  "shell_base_type QUADSHELL8 = QUAD8"
  by (simp_all add: shell_base_type_def)

lemma shell_bases_in_file:
  "TRI3 \<in> set ref_elem_file" "QUAD4 \<in> set ref_elem_file" "QUAD8 \<in> set ref_elem_file"
  by (simp_all add: ref_elem_file_def)

text \<open>
  Claim C9. Provided the embedded reference data can be read, on the first call and on
  every later one \<open>ReferenceElem::get\<close> fails, with the error that carries the requested
  type, exactly when the type (after shell aliasing) has no entry in the reference file
  table or is \<open>INVALID_ELEM\<close>; otherwise it returns the element stored for that type.
  For the shell types \<open>TRISHELL3\<close>, \<open>QUADSHELL4\<close> and \<open>QUADSHELL8\<close> it succeeds and
  returns the reference element of \<open>TRI3\<close>, \<open>QUAD4\<close> and \<open>QUAD8\<close>.
\<close>

theorem ReferenceElem_get_fails_iff:
  assumes "\<forall>t \<in> set ref_elem_file. ref_data t \<noteq> None"
    and "c = ref_cache_init \<or> c = snd (get ref_data t0 ref_cache_init)"
  shows "(fst (get ref_data type_in c) = Inl (NoReferenceElemData type_in)
            \<longleftrightarrow> shell_base_type type_in \<notin> set ref_elem_file \<or> type_in = INVALID_ELEM) \<and>
         ((\<exists>e. fst (get ref_data type_in c) = Inl e)
            \<longleftrightarrow> shell_base_type type_in \<notin> set ref_elem_file \<or> type_in = INVALID_ELEM) \<and>
         (shell_base_type type_in \<in> set ref_elem_file \<and> type_in \<noteq> INVALID_ELEM
            \<longrightarrow> fst (get ref_data type_in c) = Inr (the (ref_data (shell_base_type type_in)))) \<and>
         fst (get ref_data TRISHELL3 c) = Inr (the (ref_data TRI3)) \<and>
         fst (get ref_data QUADSHELL4 c) = Inr (the (ref_data QUAD4)) \<and>
         fst (get ref_data QUADSHELL8 c) = Inr (the (ref_data QUAD8)) \<and>
         fst (get ref_data TRISHELL3 c) = fst (get ref_data TRI3 c) \<and>
         fst (get ref_data QUADSHELL4 c) = fst (get ref_data QUAD4 c) \<and>
         fst (get ref_data QUADSHELL8 c) = fst (get ref_data QUAD8 c)"
proof -
  note r = get_result [OF assms]
  have a: "fst (get ref_data TRISHELL3 c) = Inr (the (ref_data TRI3))"
    by (simp add: r shell_base_type_shells shell_bases_in_file)
  have b: "fst (get ref_data QUADSHELL4 c) = Inr (the (ref_data QUAD4))"
    by (simp add: r shell_base_type_shells shell_bases_in_file)
  have d: "fst (get ref_data QUADSHELL8 c) = Inr (the (ref_data QUAD8))"
    by (simp add: r shell_base_type_shells shell_bases_in_file)
  have a': "fst (get ref_data TRI3 c) = Inr (the (ref_data TRI3))"
    by (simp add: r shell_base_type_def shell_bases_in_file)
  have b': "fst (get ref_data QUAD4 c) = Inr (the (ref_data QUAD4))"
    by (simp add: r shell_base_type_def shell_bases_in_file)
  have d': "fst (get ref_data QUAD8 c) = Inr (the (ref_data QUAD8))"
    by (simp add: r shell_base_type_def shell_bases_in_file)
  have g: "(fst (get ref_data type_in c) = Inl (NoReferenceElemData type_in)
            \<longleftrightarrow> shell_base_type type_in \<notin> set ref_elem_file \<or> type_in = INVALID_ELEM)"
    by (simp add: r)
  have h: "((\<exists>e. fst (get ref_data type_in c) = Inl e)
            \<longleftrightarrow> shell_base_type type_in \<notin> set ref_elem_file \<or> type_in = INVALID_ELEM)"
    by (simp add: r)
  have i: "shell_base_type type_in \<in> set ref_elem_file \<and> type_in \<noteq> INVALID_ELEM
            \<longrightarrow> fst (get ref_data type_in c) = Inr (the (ref_data (shell_base_type type_in)))"
    by (simp add: r)
  show ?thesis
    using a b d a' b' d' g h i by simp
qed

theorem ReferenceElem_get_fails_iff_witness:
  "fst (get Some TRISHELL3 ref_cache_init) = Inr TRI3 \<and>
   fst (get Some (OTHER_ELEM 0) ref_cache_init) = Inl (NoReferenceElemData (OTHER_ELEM 0)) \<and>
   fst (get Some INVALID_ELEM ref_cache_init) = Inl (NoReferenceElemData INVALID_ELEM)"
proof -
  have h1: "\<forall>t \<in> set ref_elem_file. Some t \<noteq> None" by simp
  have h2: "(ref_cache_init :: ElemType ref_cache) = ref_cache_init \<or>
      ref_cache_init = snd (get Some EDGE2 ref_cache_init)" by simp
  have s1: "shell_base_type (OTHER_ELEM 0) \<notin> set ref_elem_file"
    by (simp add: shell_base_type_def ref_elem_file_def)
  from ReferenceElem_get_fails_iff [OF h1 h2, of "OTHER_ELEM 0"] s1
  have o: "fst (get Some (OTHER_ELEM 0) ref_cache_init) = Inl (NoReferenceElemData (OTHER_ELEM 0))"
    by simp
  from ReferenceElem_get_fails_iff [OF h1 h2, of TRISHELL3]
  have t: "fst (get Some TRISHELL3 ref_cache_init) = Inr TRI3" by simp
  from ReferenceElem_get_fails_iff [OF h1 h2, of INVALID_ELEM]
  have i: "fst (get Some INVALID_ELEM ref_cache_init) = Inl (NoReferenceElemData INVALID_ELEM)"
    by simp
  show ?thesis using o t i by simp
qed

section \<open>Properties of the jump error estimator\<close>

lemma fold_appends:
  assumes "\<And>x s. F (f x s) = F s @ g x"
  shows "F (fold f xs s) = F s @ concat (map g xs)"
  by (induction xs arbitrary: s) (simp_all add: assms)

lemma fold_keeps:
  assumes "\<And>x s. F (f x s) = F s"
  shows "F (fold f xs s) = F s"
  by (induction xs arbitrary: s) (simp_all add: assms)

lemma face_integrations_internal_integrate:
  "face_integrations (internal_integrate je k fine coarse var s) =
     face_integrations s @
       (if significant_var je var then (case k of Face n \<Rightarrow> [(fine, n, coarse, var)] | _ \<Rightarrow> []) else [])"
  by (cases k) (simp_all add: internal_integrate_def face_integrations_def split: prod.splits)

lemma concat_map_if_singleton:
  "concat (map (\<lambda>v. if P v then [h v] else []) xs) = map h (filter P xs)"
  by (induction xs) simp_all

lemma face_integrations_internal_vars_Face:
  "face_integrations (internal_vars je (Face n) fine coarse s) =
     face_integrations s @ map (\<lambda>v. (fine, n, coarse, v)) (filter (significant_var je) [0..<n_system_vars je])"
proof -
  have "face_integrations (internal_vars je (Face n) fine coarse s) =
          face_integrations s @
            concat (map (\<lambda>v. if significant_var je v then [(fine, n, coarse, v)] else []) [0..<n_system_vars je])"
    unfolding internal_vars_def
    by (rule fold_appends) (simp add: face_integrations_internal_integrate)
  then show ?thesis by (simp add: concat_map_if_singleton)
qed

lemma face_integrations_internal_vars_other:
  "face_integrations (internal_vars je (Parent_face n) fine coarse s) = face_integrations s"
  "face_integrations (internal_vars je (Slit n qp) fine coarse s) = face_integrations s"
  unfolding internal_vars_def
  by (rule fold_keeps, simp add: face_integrations_internal_integrate)+

lemma face_integrations_count_flux_faces:
  "face_integrations (count_flux_faces je fine coarse s) = face_integrations s"
  by (simp add: count_flux_faces_def face_integrations_def)

lemma face_integrations_boundary_integrate:
  "face_integrations (fst (boundary_integrate je on_parent e side var sf)) = face_integrations (fst sf)"
  by (simp add: boundary_integrate_def face_integrations_def split: option.splits)

lemma face_integrations_boundary_side:
  "face_integrations (boundary_side je on_parent e side s) = face_integrations s"
proof -
  have "face_integrations (fst (fold (boundary_integrate je on_parent (elem_id e) side) xs sf)) =
          face_integrations (fst sf)" for xs sf
    by (induction xs arbitrary: sf) (simp_all add: face_integrations_boundary_integrate)
  from this [of "[0..<n_system_vars je]" "(s, False)"]
  have f: "face_integrations (fst (fold (boundary_integrate je on_parent (elem_id e) side)
             [0..<n_system_vars je] (s, False))) = face_integrations s"
    by simp
  obtain s' b where sb: "fold (boundary_integrate je on_parent (elem_id e) side)
             [0..<n_system_vars je] (s, False) = (s', b)"
    by (cases "fold (boundary_integrate je on_parent (elem_id e) side) [0..<n_system_vars je] (s, False)")
  from f have "face_integrations s' = face_integrations s" by (simp add: sb)
  then show ?thesis
    by (simp add: boundary_side_def sb face_integrations_def)
qed

lemma face_integrations_parent_neighbor_step:
  "face_integrations (parent_neighbor_step je mesh parent n_p f_id s) = face_integrations s"
  by (simp add: parent_neighbor_step_def face_integrations_count_flux_faces
        face_integrations_internal_vars_other split: option.splits)

lemma face_integrations_parent_side_step:
  "face_integrations (parent_side_step je mesh parent n_p s) = face_integrations s"
  unfolding parent_side_step_def
  by (auto split: option.splits
        simp: face_integrations_boundary_side
        intro: fold_keeps face_integrations_parent_neighbor_step)

lemma face_integrations_parent_estimate:
  "face_integrations (parent_estimate je mesh estimate_parent_error e s) = face_integrations s"
  unfolding parent_estimate_def
  by (auto split: option.splits intro: fold_keeps face_integrations_parent_side_step)

lemma face_integrations_slit_side:
  "face_integrations (slit_side je mesh e n_e s) = face_integrations s"
proof -
  let ?g = "\<lambda>qp f_ptr s'. case elem_ptr mesh f_ptr of
                         None \<Rightarrow> s'
                       | Some f \<Rightarrow>
                           if elem_id f = elem_id e then s'
                           else internal_vars je (Slit n_e qp) (elem_id e) (elem_id f) s'"
  have inner: "face_integrations (fold (?g qp) cs s0) = face_integrations s0" for qp cs s0
    by (rule fold_keeps) (simp add: face_integrations_internal_vars_other split: option.splits)
  have outer: "face_integrations (fold (\<lambda>qp. fold (?g qp) cs) qs s0) = face_integrations s0"
    for cs qs s0
    by (rule fold_keeps) (rule inner)
  show ?thesis
    by (simp add: slit_side_def Let_def outer)
qed

lemma face_integrations_side_step:
  "face_integrations (side_step je mesh e n_e s) = face_integrations s @ side_faces je mesh e n_e"
  by (simp add: side_step_def side_faces_def face_integrations_count_flux_faces
        face_integrations_internal_vars_Face face_integrations_slit_side
        face_integrations_boundary_side split: option.splits)

lemma face_integrations_elem_step:
  "face_integrations (elem_step je mesh estimate_parent_error e s) =
     face_integrations s @ elem_faces je mesh e"
proof (cases "elem_infinite e")
  case True
  then show ?thesis by (simp add: elem_step_def elem_faces_def)
next
  case False
  have "face_integrations (fold (side_step je mesh e) [0..<n_sides e]
            (parent_estimate je mesh estimate_parent_error e s)) =
        face_integrations (parent_estimate je mesh estimate_parent_error e s) @
          concat (map (side_faces je mesh e) [0..<n_sides e])"
    by (rule fold_appends) (rule face_integrations_side_step)
  then show ?thesis
    using False by (simp add: elem_step_def elem_faces_def face_integrations_parent_estimate)
qed

lemma face_integrations_local_loop:
  "face_integrations (local_loop je mesh estimate_parent_error pid) =
     concat (map (elem_faces je mesh) (active_local_element_ptr_range mesh pid))"
proof -
  have "face_integrations (local_loop je mesh estimate_parent_error pid) =
          face_integrations (jump_init je mesh) @
            concat (map (elem_faces je mesh) (active_local_element_ptr_range mesh pid))"
    unfolding local_loop_def
    by (rule fold_appends) (rule face_integrations_elem_step)
  then show ?thesis by (simp add: jump_init_def face_integrations_def)
qed


lemma count_list_concat_map:
  "count_list (concat (map g xs)) k = sum_list (map (\<lambda>x. count_list (g x) k) xs)"
  by (induction xs) simp_all

lemma count_list_distinct:
  "distinct xs \<Longrightarrow> count_list xs x = (if x \<in> set xs then 1 else 0)"
  by (induction xs) auto

lemma sum_list_map_single:
  fixes h :: "'a \<Rightarrow> nat"
  assumes "distinct (map kf xs)"
    and "\<And>y. y \<in> set xs \<Longrightarrow> kf y \<noteq> c \<Longrightarrow> h y = 0"
  shows "sum_list (map h xs) = (case find (\<lambda>y. kf y = c) xs of None \<Rightarrow> 0 | Some x \<Rightarrow> h x)"
  using assms
proof (induction xs)
  case Nil
  then show ?case by simp
next
  case (Cons a xs)
  show ?case
  proof (cases "kf a = c")
    case True
    have "kf a \<notin> kf ` set xs"
      using Cons.prems(1) by simp
    then have "\<And>y. y \<in> set xs \<Longrightarrow> kf y \<noteq> c"
      using True by blast
    then have "\<And>y. y \<in> set xs \<Longrightarrow> h y = 0"
      using Cons.prems(2) by simp
    then have "sum_list (map h xs) = 0" by simp
    then show ?thesis using True by simp
  next
    case False
    then have "h a = 0" using Cons.prems(2) by simp
    moreover have "sum_list (map h xs) = (case find (\<lambda>y. kf y = c) xs of None \<Rightarrow> 0 | Some x \<Rightarrow> h x)"
      using Cons.IH Cons.prems by simp
    ultimately show ?thesis using False by simp
  qed
qed

lemma find_distinct_key:
  assumes "distinct (map kf xs)" and "x \<in> set xs"
  shows "find (\<lambda>y. kf y = kf x) xs = Some x"
  using assms by (induction xs) auto

lemma find_key_None:
  "(\<And>y. y \<in> set xs \<Longrightarrow> kf y \<noteq> c) \<Longrightarrow> find (\<lambda>y. kf y = c) xs = None"
  by (induction xs) auto

lemma elem_ptr_in_mesh:
  assumes "distinct (map elem_id (mesh_elements mesh))" and "f \<in> set (mesh_elements mesh)"
  shows "elem_ptr mesh (elem_id f) = Some f"
  unfolding elem_ptr_def using assms by (rule find_distinct_key)

lemma elem_ptr_id:
  "elem_ptr mesh i = Some g \<Longrightarrow> elem_id g = i"
  unfolding elem_ptr_def by (auto simp: find_Some_iff)

lemma count_side_faces:
  "count_list (side_faces je mesh a n) (x, m, y, v) =
     (if x = elem_id a \<and> m = n \<and> v < n_system_vars je \<and> significant_var je v \<and>
         (\<exists>b. neighbor_ptr mesh a n = Some b \<and> elem_id b = y \<and> \<not> elem_infinite b \<and> case_1_or_2 a b)
      then 1 else 0)"
proof -
  have c: "count_list (map (\<lambda>v. (c1, c2, c3, v)) L) (x', m', y', v') =
             (if x' = c1 \<and> m' = c2 \<and> y' = c3 then count_list L v' else 0)"
    for c1 c2 c3 x' m' y' v' :: nat and L :: "nat list"
    by (induction L) auto
  have d: "count_list (filter (significant_var je) [0..<n_system_vars je]) v =
             (if v < n_system_vars je \<and> significant_var je v then 1 else 0)"
    by (simp add: count_list_distinct)
  show ?thesis
  proof (cases "neighbor_ptr mesh a n")
    case None
    then show ?thesis by (simp add: side_faces_def)
  next
    case (Some b)
    then show ?thesis by (auto simp: side_faces_def c d)
  qed
qed

lemma sum_list_upt_single:
  fixes c :: "nat \<Rightarrow> nat"
  shows "sum_list (map (\<lambda>n. if m = n then c n else 0) [0..<N]) = (if m < N then c m else 0)"
  by (induction N) auto

lemma count_elem_faces:
  "count_list (elem_faces je mesh a) (x, m, y, v) =
     (if \<not> elem_infinite a \<and> m < n_sides a then count_list (side_faces je mesh a m) (x, m, y, v)
      else 0)"
proof (cases "elem_infinite a")
  case True
  then show ?thesis by (simp add: elem_faces_def)
next
  case False
  have "count_list (side_faces je mesh a n) (x, m, y, v) =
          (if m = n then count_list (side_faces je mesh a n) (x, m, y, v) else 0)" for n
    by (simp add: count_side_faces)
  then have "sum_list (map (\<lambda>n. count_list (side_faces je mesh a n) (x, m, y, v)) [0..<n_sides a]) =
        sum_list (map (\<lambda>n. if m = n then count_list (side_faces je mesh a n) (x, m, y, v) else 0)
                    [0..<n_sides a])"
    by presburger
  then show ?thesis
    using False by (simp add: elem_faces_def count_list_concat_map sum_list_upt_single)
qed


lemma count_local_faces:
  assumes d: "distinct (map elem_id (mesh_elements mesh))"
    and a: "a \<in> set (mesh_elements mesh)"
  shows "count_list (concat (map (elem_faces je mesh) (active_local_element_ptr_range mesh pid)))
             (elem_id a, m, y, v) =
           (if elem_active a \<and> elem_processor_id a = pid
            then count_list (elem_faces je mesh a) (elem_id a, m, y, v) else 0)"
proof -
  let ?P = "\<lambda>e. elem_active e \<and> elem_processor_id e = pid"
  let ?L = "filter ?P (mesh_elements mesh)"
  let ?h = "\<lambda>b. count_list (elem_faces je mesh b) (elem_id a, m, y, v)"
  have dl: "distinct (map elem_id ?L)"
    using d by (rule distinct_map_filter)
  have z: "\<And>b. b \<in> set ?L \<Longrightarrow> elem_id b \<noteq> elem_id a \<Longrightarrow> ?h b = 0"
    by (simp add: count_elem_faces count_side_faces)
  have s: "sum_list (map ?h ?L) =
             (case find (\<lambda>b. elem_id b = elem_id a) ?L of None \<Rightarrow> 0 | Some b \<Rightarrow> ?h b)"
    using dl z by (rule sum_list_map_single)
  have f: "find (\<lambda>b. elem_id b = elem_id a) ?L = (if ?P a then Some a else None)"
  proof (cases "?P a")
    case True
    then have "a \<in> set ?L" using a by simp
    with dl have "find (\<lambda>b. elem_id b = elem_id a) ?L = Some a"
      by (rule find_distinct_key)
    then show ?thesis using True by simp
  next
    case False
    have "\<And>b. b \<in> set ?L \<Longrightarrow> elem_id b \<noteq> elem_id a"
    proof
      fix b assume b: "b \<in> set ?L" and eq: "elem_id b = elem_id a"
      from b have bm: "b \<in> set (mesh_elements mesh)" and Pb: "?P b" by simp_all
      from d bm a eq have "b = a" by (meson distinct_map inj_onD)
      with Pb False show False by simp
    qed
    then have "find (\<lambda>b. elem_id b = elem_id a) ?L = None" by (rule find_key_None)
    then show ?thesis using False by simp
  qed
  show ?thesis
    by (simp add: count_list_concat_map active_local_element_ptr_range_def s f)
qed

lemma sum_list_processors:
  fixes c :: nat
  shows "sum_list (map (\<lambda>pid. if q = pid then c else 0) [0..<N]) = (if q < N then c else 0)"
  by (induction N) auto

lemma count_integrated_faces:
  assumes d: "distinct (map elem_id (mesh_elements mesh))"
    and a: "a \<in> set (mesh_elements mesh)"
  shows "count_list (integrated_faces je mesh) (elem_id a, m, y, v) =
           (if elem_active a \<and> elem_processor_id a < mesh_n_processors mesh
            then count_list (elem_faces je mesh a) (elem_id a, m, y, v) else 0)"
proof -
  let ?c = "count_list (elem_faces je mesh a) (elem_id a, m, y, v)"
  have "count_list (integrated_faces je mesh) (elem_id a, m, y, v) =
          sum_list (map (\<lambda>pid. if elem_active a \<and> elem_processor_id a = pid then ?c else 0)
                      [0..<mesh_n_processors mesh])"
    using count_local_faces [OF d a, unfolded count_list_concat_map]
    by (simp add: integrated_faces_def count_list_concat_map)
  also have "\<dots> = (if elem_active a \<and> elem_processor_id a < mesh_n_processors mesh then ?c else 0)"
  proof (cases "elem_active a")
    case True
    then show ?thesis by (simp add: sum_list_processors)
  next
    case False
    then show ?thesis by simp
  qed
  finally show ?thesis .
qed

lemma count_elem_faces_le:
  "count_list (elem_faces je mesh b) k \<le> 1"
  by (cases k) (simp add: count_elem_faces count_side_faces)

lemma count_elem_faces_other:
  "x \<noteq> elem_id b \<Longrightarrow> count_list (elem_faces je mesh b) (x, m, y, v) = 0"
  by (simp add: count_elem_faces count_side_faces)

lemma count_integrated_faces_le:
  assumes d: "distinct (map elem_id (mesh_elements mesh))"
  shows "count_list (integrated_faces je mesh) k \<le> 1"
proof -
  obtain x m y v where k: "k = (x, m, y, v)" by (cases k)
  show ?thesis
  proof (cases "\<exists>a \<in> set (mesh_elements mesh). elem_id a = x")
    case True
    then obtain a where a: "a \<in> set (mesh_elements mesh)" "elem_id a = x" by blast
    have "count_list (integrated_faces je mesh) (elem_id a, m, y, v) \<le>
            count_list (elem_faces je mesh a) (elem_id a, m, y, v)"
      by (simp add: count_integrated_faces [OF d a(1)])
    also have "\<dots> \<le> 1" by (rule count_elem_faces_le)
    finally show ?thesis by (simp add: k a(2))
  next
    case False
    then have "\<And>b. b \<in> set (mesh_elements mesh) \<Longrightarrow> count_list (elem_faces je mesh b) (x, m, y, v) = 0"
      by (intro count_elem_faces_other) blast
    then have "count_list (integrated_faces je mesh) (x, m, y, v) = 0"
      by (simp add: integrated_faces_def count_list_concat_map active_local_element_ptr_range_def)
    then show ?thesis by (simp add: k)
  qed
qed

lemma count_integrated_faces_eq:
  assumes d: "distinct (map elem_id (mesh_elements mesh))"
    and a: "a \<in> set (mesh_elements mesh)"
    and act: "elem_active a" and inf: "\<not> elem_infinite a"
    and proc: "elem_processor_id a < mesh_n_processors mesh"
    and var: "v < n_system_vars je" "significant_var je v"
  shows "count_list (integrated_faces je mesh) (elem_id a, m, y, v) =
           (if m < n_sides a \<and>
               (\<exists>b. neighbor_ptr mesh a m = Some b \<and> elem_id b = y \<and> \<not> elem_infinite b \<and> case_1_or_2 a b)
            then 1 else 0)"
  using inf var act proc
  by (auto simp: count_integrated_faces [OF d a] count_elem_faces count_side_faces)
lemma neighbor_ptr_points_to:
  assumes d: "distinct (map elem_id (mesh_elements mesh))"
    and b: "b \<in> set (mesh_elements mesh)"
  shows "(\<exists>g. neighbor_ptr mesh a n = Some g \<and> elem_id g = elem_id b \<and> \<not> elem_infinite g \<and> case_1_or_2 a g)
           \<longleftrightarrow> n < n_sides a \<and> elem_neighbors a ! n = Some (elem_id b) \<and> \<not> elem_infinite b \<and> case_1_or_2 a b"
proof
  assume "\<exists>g. neighbor_ptr mesh a n = Some g \<and> elem_id g = elem_id b \<and> \<not> elem_infinite g \<and> case_1_or_2 a g"
  then obtain g where g: "neighbor_ptr mesh a n = Some g" "elem_id g = elem_id b"
      "\<not> elem_infinite g" "case_1_or_2 a g"
    by blast
  from g(1) have n: "n < n_sides a"
    by (auto simp: neighbor_ptr_def split: if_splits)
  from g(1) n obtain i where i: "elem_neighbors a ! n = Some i" "elem_ptr mesh i = Some g"
    by (auto simp: neighbor_ptr_def split: option.splits)
  from i(2) have "elem_id g = i" by (rule elem_ptr_id)
  with g(2) have ib: "i = elem_id b" by simp
  from elem_ptr_in_mesh [OF d b] i(2) ib have "g = b" by simp
  with g n i ib show "n < n_sides a \<and> elem_neighbors a ! n = Some (elem_id b) \<and> \<not> elem_infinite b \<and> case_1_or_2 a b"
    by simp
next
  assume r: "n < n_sides a \<and> elem_neighbors a ! n = Some (elem_id b) \<and> \<not> elem_infinite b \<and> case_1_or_2 a b"
  then have "neighbor_ptr mesh a n = Some b"
    by (simp add: neighbor_ptr_def elem_ptr_in_mesh [OF d b])
  with r show "\<exists>g. neighbor_ptr mesh a n = Some g \<and> elem_id g = elem_id b \<and> \<not> elem_infinite g \<and> case_1_or_2 a g"
    by blast
qed

lemma case_1_or_2_one_side:
  assumes "elem_active e" "elem_active f" "elem_id e \<noteq> elem_id f"
  shows "case_1_or_2 e f \<longleftrightarrow> \<not> case_1_or_2 f e"
  using assms unfolding case_1_or_2_def by (auto simp: not_less)


lemma kinds_internal_vars:
  assumes "\<And>v fe ce. Q (Internal_contribution k fine coarse v fe ce)"
    and "list_all Q (contributions s)"
  shows "list_all Q (contributions (internal_vars je k fine coarse s))"
  unfolding internal_vars_def
proof (rule fold_preserves)
  show "list_all Q (contributions s)" by (rule assms(2))
next
  fix x and s' :: jump_state
  assume "list_all Q (contributions s')"
  then show "list_all Q (contributions (internal_integrate je k fine coarse x s'))"
    using assms(1) by (simp add: internal_integrate_def split: prod.splits)
qed

lemma contributions_count_flux_faces:
  "contributions (count_flux_faces je fine coarse s) = contributions s"
  by (simp add: count_flux_faces_def)

lemma kinds_boundary_side:
  assumes "\<And>v x. Q (Boundary_contribution on_parent (elem_id e) side v x)"
    and "list_all Q (contributions s)"
  shows "list_all Q (contributions (boundary_side je on_parent e side s))"
proof -
  have "list_all Q (contributions (fst (fold (boundary_integrate je on_parent (elem_id e) side)
          [0..<n_system_vars je] (s, False))))"
  proof (rule fold_preserves [where P = "\<lambda>sf. list_all Q (contributions (fst sf))"])
    show "list_all Q (contributions (fst (s, False)))" using assms(2) by simp
  next
    fix x and sf :: "jump_state \<times> bool"
    assume "list_all Q (contributions (fst sf))"
    then show "list_all Q (contributions (fst (boundary_integrate je on_parent (elem_id e) side x sf)))"
      using assms(1) by (simp add: boundary_integrate_def split: option.splits)
  qed
  then show ?thesis
    by (auto simp: boundary_side_def split: prod.splits)
qed

lemma kinds_parent_estimate:
  assumes "\<And>n fine coarse v fe ce. epe \<Longrightarrow> Q (Internal_contribution (Parent_face n) fine coarse v fe ce)"
    and "\<And>e side v x. epe \<Longrightarrow> Q (Boundary_contribution True e side v x)"
    and "list_all Q (contributions s)"
  shows "list_all Q (contributions (parent_estimate je mesh epe e s))"
proof (cases epe)
  case False
  then show ?thesis
    using assms(3) by (simp add: parent_estimate_def compute_on_parent_def split: option.splits)
next
  case True
  have nb: "list_all Q (contributions (parent_neighbor_step je mesh parent n_p f_id s'))"
    if "list_all Q (contributions s')" for parent n_p f_id s'
    using that True assms(1)
    by (simp add: parent_neighbor_step_def contributions_count_flux_faces kinds_internal_vars
          split: option.splits)
  have sd: "list_all Q (contributions (parent_side_step je mesh parent n_p s'))"
    if "list_all Q (contributions s')" for parent n_p s'
  proof (cases "neighbor_ptr mesh parent n_p")
    case None
    then show ?thesis
      using that True assms(2) by (simp add: parent_side_step_def kinds_boundary_side)
  next
    case (Some nb')
    have "list_all Q (contributions (fold (parent_neighbor_step je mesh parent n_p)
            (active_family_tree_by_neighbor je (elem_id nb') (elem_id parent)) s'))"
      by (rule fold_preserves) (simp_all add: nb that)
    then show ?thesis by (simp add: parent_side_step_def Some)
  qed
  show ?thesis
  proof (cases "compute_on_parent mesh epe e")
    case None
    then show ?thesis using assms(3) by (simp add: parent_estimate_def)
  next
    case (Some parent)
    have "list_all Q (contributions (fold (parent_side_step je mesh parent) [0..<n_sides parent] s))"
      by (rule fold_preserves) (simp_all add: sd assms(3))
    then show ?thesis using assms(3) by (simp add: parent_estimate_def Some)
  qed
qed

lemma kinds_slit_side:
  assumes "\<And>n qp fine coarse v fe ce. Q (Internal_contribution (Slit n qp) fine coarse v fe ce)"
    and "list_all Q (contributions s)"
  shows "list_all Q (contributions (slit_side je mesh e n_e s))"
proof -
  let ?g = "\<lambda>qp f_ptr s'. case elem_ptr mesh f_ptr of
                         None \<Rightarrow> s'
                       | Some f \<Rightarrow>
                           if elem_id f = elem_id e then s'
                           else internal_vars je (Slit n_e qp) (elem_id e) (elem_id f) s'"
  have inner: "list_all Q (contributions (fold (?g qp) cs s0))"
    if "list_all Q (contributions s0)" for qp cs s0
    by (rule fold_preserves) (simp_all add: kinds_internal_vars assms(1) that split: option.splits)
  have outer: "list_all Q (contributions (fold (\<lambda>qp. fold (?g qp) cs) qs s0))"
    if "list_all Q (contributions s0)" for cs qs s0
    by (rule fold_preserves) (simp_all add: inner that)
  show ?thesis
    by (simp add: slit_side_def Let_def outer assms(2))
qed

lemma kinds_side_step:
  assumes "\<And>n fine coarse v fe ce. Q (Internal_contribution (Face n) fine coarse v fe ce)"
    and "\<And>n qp fine coarse v fe ce. integrate_slits je \<Longrightarrow>
           Q (Internal_contribution (Slit n qp) fine coarse v fe ce)"
    and "\<And>e' side v x. integrate_boundary_sides je \<Longrightarrow> Q (Boundary_contribution False e' side v x)"
    and "list_all Q (contributions s)"
  shows "list_all Q (contributions (side_step je mesh e n_e s))"
proof (cases "integrate_slits je")
  case True
  then show ?thesis
    using assms
    by (simp add: side_step_def contributions_count_flux_faces kinds_internal_vars kinds_slit_side
          split: option.splits)
next
  case False
  then show ?thesis
    using assms
    by (simp add: side_step_def contributions_count_flux_faces kinds_internal_vars
          kinds_boundary_side split: option.splits)
qed

lemma kinds_local_loop:
  assumes "\<And>n fine coarse v fe ce. Q (Internal_contribution (Face n) fine coarse v fe ce)"
    and "\<And>n qp fine coarse v fe ce. integrate_slits je \<Longrightarrow>
           Q (Internal_contribution (Slit n qp) fine coarse v fe ce)"
    and "\<And>e' side v x. integrate_boundary_sides je \<Longrightarrow> Q (Boundary_contribution False e' side v x)"
    and "\<And>n fine coarse v fe ce. epe \<Longrightarrow> Q (Internal_contribution (Parent_face n) fine coarse v fe ce)"
    and "\<And>e' side v x. epe \<Longrightarrow> Q (Boundary_contribution True e' side v x)"
  shows "list_all Q (contributions (local_loop je mesh epe pid))"
  unfolding local_loop_def
proof (rule fold_preserves)
  show "list_all Q (contributions (jump_init je mesh))"
    by (simp add: jump_init_def)
next
  fix e and s :: jump_state
  assume s: "list_all Q (contributions s)"
  have p: "list_all Q (contributions (parent_estimate je mesh epe e s))"
    using assms(4,5) s by (rule kinds_parent_estimate)
  have "list_all Q (contributions (fold (side_step je mesh e) [0..<n_sides e]
          (parent_estimate je mesh epe e s)))"
  proof (rule fold_preserves)
    show "list_all Q (contributions (parent_estimate je mesh epe e s))" by (rule p)
  next
    fix n and s' :: jump_state
    assume "list_all Q (contributions s')"
    with assms(1,2,3) show "list_all Q (contributions (side_step je mesh e n s'))"
      by (rule kinds_side_step)
  qed
  then show "list_all Q (contributions (elem_step je mesh epe e s))"
    using s by (simp add: elem_step_def)
qed

lemma no_parent_pass:
  "list_all (\<lambda>c. \<not> parent_pass c) (contributions (local_loop je mesh False pid))"
  by (rule kinds_local_loop) simp_all

lemma no_no_neighbor:
  assumes "\<not> integrate_slits je" "\<not> integrate_boundary_sides je"
  shows "list_all (\<lambda>c. \<not> no_neighbor c) (contributions (local_loop je mesh epe pid))"
  by (rule kinds_local_loop) (simp_all add: assms)

lemma filter_none:
  "list_all (\<lambda>c. \<not> P c) xs \<Longrightarrow> filter P xs = []"
  by (induction xs) simp_all

lemma share_split:
  "(\<Sum>c\<leftarrow>xs. share i c) =
     (\<Sum>c\<leftarrow>filter (\<lambda>c. face_key c \<noteq> []) xs. share i c) +
     (\<Sum>c\<leftarrow>filter no_neighbor xs. share i c) +
     (\<Sum>c\<leftarrow>filter parent_pass xs. share i c)"
proof (induction xs)
  case Nil
  then show ?case by simp
next
  case (Cons c xs)
  show ?case
  proof (cases c)
    case (Internal_contribution k fine coarse v fe ce)
    then show ?thesis using Cons.IH by (cases k) simp_all
  next
    case (Boundary_contribution on_parent e side v fe)
    then show ?thesis using Cons.IH by simp
  qed
qed

lemma face_part:
  assumes "list_all (returned_by je) xs"
  shows "(\<Sum>c\<leftarrow>filter (\<lambda>c. face_key c \<noteq> []) xs. share i c) =
           (\<Sum>k\<leftarrow>concat (map face_key xs). face_share je i k)"
  using assms
proof (induction xs)
  case Nil
  then show ?case by simp
next
  case (Cons c xs)
  then have IH: "(\<Sum>c\<leftarrow>filter (\<lambda>c. face_key c \<noteq> []) xs. share i c) =
           (\<Sum>k\<leftarrow>concat (map face_key xs). face_share je i k)"
    by simp
  from Cons.prems have r: "returned_by je c" by simp
  show ?case
  proof (cases c)
    case (Internal_contribution k fine coarse v fe ce)
    then show ?thesis using IH r by (cases k) (simp_all add: face_share_def)
  next
    case (Boundary_contribution on_parent e side v fe)
    then show ?thesis using IH by simp
  qed
qed

lemma local_loop_split:
  "(\<Sum>c\<leftarrow>contributions (local_loop je mesh epe pid). share i c) =
     (\<Sum>k\<leftarrow>concat (map (elem_faces je mesh) (active_local_element_ptr_range mesh pid)). face_share je i k) +
     (\<Sum>c\<leftarrow>filter no_neighbor (contributions (local_loop je mesh epe pid)). share i c) +
     (\<Sum>c\<leftarrow>filter parent_pass (contributions (local_loop je mesh epe pid)). share i c)"
proof -
  have r: "list_all (returned_by je) (contributions (local_loop je mesh epe pid))"
    using jump_inv_local_loop [of je mesh epe pid] by (simp add: jump_inv_def)
  have "concat (map face_key (contributions (local_loop je mesh epe pid))) =
          concat (map (elem_faces je mesh) (active_local_element_ptr_range mesh pid))"
    using face_integrations_local_loop [of je mesh epe pid] by (simp add: face_integrations_def)
  with face_part [OF r, of i] show ?thesis
    by (simp add: share_split [of i "contributions (local_loop je mesh epe pid)"])
qed

lemma sum_list_concat_map:
  fixes g :: "'b \<Rightarrow> real"
  shows "sum_list (map g (concat (map L xs))) = (\<Sum>x\<leftarrow>xs. sum_list (map g (L x)))"
  by (induction xs) simp_all

lemma summed_error_split:
  assumes "i < max_elem_id mesh"
  shows "summed_error je mesh epe ! i =
           face_sum je mesh i + no_neighbor_sum je mesh epe i + parent_pass_sum je mesh epe i"
proof -
  have "face_sum je mesh i =
          (\<Sum>pid\<leftarrow>[0..<mesh_n_processors mesh].
             \<Sum>k\<leftarrow>concat (map (elem_faces je mesh) (active_local_element_ptr_range mesh pid)).
               face_share je i k)"
    by (simp add: face_sum_def integrated_faces_def sum_list_concat_map)
  then show ?thesis
    by (simp add: summed_error_nth [OF assms] local_loop_split no_neighbor_sum_def
          parent_pass_sum_def sum_list_addf)
qed

lemma parent_pass_sum_zero:
  "parent_pass_sum je mesh False i = 0"
  by (simp add: parent_pass_sum_def filter_none [OF no_parent_pass])

lemma no_neighbor_sum_zero:
  assumes "\<not> integrate_slits je" "\<not> integrate_boundary_sides je"
  shows "no_neighbor_sum je mesh epe i = 0"
  by (simp add: no_neighbor_sum_def filter_none [OF no_no_neighbor [OF assms]])


text \<open>
  Claim C10, as amended. Take a mesh whose elements have distinct ids, an active, finite
  element \<open>e\<close> of it on one of the processors, a side \<open>n_e\<close> of \<open>e\<close> whose neighbor
  pointer is the finite element \<open>f\<close>, and a significant variable. Over all processors,
  the loop over the sides integrates this side from \<open>e\<close> exactly once if \<open>f\<close> is coarser,
  or if \<open>f\<close> is active, on the level of \<open>e\<close>, and \<open>e\<close> has the smaller id, and not at
  all otherwise; no integration of a side between neighbors occurs twice. So of two
  active neighbors that point to each other exactly one integrates the shared side, and
  an active element does not integrate a side whose neighbor on its own level is
  inactive (refined): only the finer elements behind it do. Every slot of
  \<open>error_per_cell\<close>, before the square root, is the sum of what these integrations
  return, each taken once, plus what the sides without a neighbor (slits, boundary sides)
  and the estimate on the parents add. Without \<open>estimate_parent_error\<close> the parents add
  nothing, and when neither slits nor boundary sides are integrated the slot is the sum
  over the sides between neighbors alone.
\<close>

theorem jump_shared_face_integrated_once:
  assumes d: "distinct (map elem_id (mesh_elements mesh))"
    and e: "e \<in> set (mesh_elements mesh)" and f: "f \<in> set (mesh_elements mesh)"
    and act: "elem_active e"
    and inf: "\<not> elem_infinite e" "\<not> elem_infinite f"
    and proc: "elem_processor_id e < mesh_n_processors mesh"
    and ne: "n_e < n_sides e" "elem_neighbors e ! n_e = Some (elem_id f)"
    and var: "var < n_system_vars je" "significant_var je var"
    and i: "i < max_elem_id mesh"
  shows "count_list (integrated_faces je mesh) (elem_id e, n_e, elem_id f, var) =
           (if elem_level f < elem_level e \<or>
               (elem_level f = elem_level e \<and> elem_active f \<and> elem_id e < elem_id f)
            then 1 else 0) \<and>
         (\<forall>k. count_list (integrated_faces je mesh) k \<le> 1) \<and>
         (elem_active f \<and> e \<noteq> f \<and> elem_processor_id f < mesh_n_processors mesh \<longrightarrow>
            (\<forall>n_f. n_f < n_sides f \<and> elem_neighbors f ! n_f = Some (elem_id e) \<longrightarrow>
               count_list (integrated_faces je mesh) (elem_id e, n_e, elem_id f, var) +
               count_list (integrated_faces je mesh) (elem_id f, n_f, elem_id e, var) = 1)) \<and>
         (\<not> elem_active f \<and> elem_level f = elem_level e \<longrightarrow>
            count_list (integrated_faces je mesh) (elem_id e, n_e, elem_id f, var) = 0) \<and>
         summed_error je mesh estimate_parent_error ! i =
           face_sum je mesh i + no_neighbor_sum je mesh estimate_parent_error i +
           parent_pass_sum je mesh estimate_parent_error i \<and>
         (\<not> estimate_parent_error \<longrightarrow>
            summed_error je mesh estimate_parent_error ! i =
              face_sum je mesh i + no_neighbor_sum je mesh estimate_parent_error i) \<and>
         (\<not> estimate_parent_error \<and> \<not> integrate_slits je \<and> \<not> integrate_boundary_sides je \<longrightarrow>
            summed_error je mesh estimate_parent_error ! i = face_sum je mesh i)"
proof -
  let ?ce = "count_list (integrated_faces je mesh) (elem_id e, n_e, elem_id f, var)"
  have te: "?ce = (if case_1_or_2 e f then 1 else 0)"
    using count_integrated_faces_eq [OF d e act inf(1) proc var]
          neighbor_ptr_points_to [OF d f, of e n_e] ne inf(2)
    by simp
  have c1: "?ce = (if elem_level f < elem_level e \<or>
               (elem_level f = elem_level e \<and> elem_active f \<and> elem_id e < elem_id f)
            then 1 else 0)"
    unfolding te by (auto simp: case_1_or_2_def)
  have c2: "\<forall>k. count_list (integrated_faces je mesh) k \<le> 1"
    using count_integrated_faces_le [OF d] by blast
  have c3: "elem_active f \<and> e \<noteq> f \<and> elem_processor_id f < mesh_n_processors mesh \<longrightarrow>
            (\<forall>n_f. n_f < n_sides f \<and> elem_neighbors f ! n_f = Some (elem_id e) \<longrightarrow>
               ?ce + count_list (integrated_faces je mesh) (elem_id f, n_f, elem_id e, var) = 1)"
  proof (intro impI allI, elim conjE)
    fix n_f
    assume actf: "elem_active f" and ef: "e \<noteq> f"
      and procf: "elem_processor_id f < mesh_n_processors mesh"
      and nf: "n_f < n_sides f" "elem_neighbors f ! n_f = Some (elem_id e)"
    have ids: "elem_id e \<noteq> elem_id f"
      using d e f ef by (meson distinct_map inj_onD)
    have tf: "count_list (integrated_faces je mesh) (elem_id f, n_f, elem_id e, var) =
           (if case_1_or_2 f e then 1 else 0)"
      using count_integrated_faces_eq [OF d f actf inf(2) procf var]
            neighbor_ptr_points_to [OF d e, of f n_f] nf inf(1)
      by simp
    have "case_1_or_2 e f \<longleftrightarrow> \<not> case_1_or_2 f e"
      using act actf ids by (rule case_1_or_2_one_side)
    then show "?ce + count_list (integrated_faces je mesh) (elem_id f, n_f, elem_id e, var) = 1"
      by (simp add: te tf)
  qed
  have c4: "\<not> elem_active f \<and> elem_level f = elem_level e \<longrightarrow> ?ce = 0"
    unfolding c1 by simp
  have c5: "summed_error je mesh estimate_parent_error ! i =
           face_sum je mesh i + no_neighbor_sum je mesh estimate_parent_error i +
           parent_pass_sum je mesh estimate_parent_error i"
    using i by (rule summed_error_split)
  have c6: "\<not> estimate_parent_error \<longrightarrow>
            summed_error je mesh estimate_parent_error ! i =
              face_sum je mesh i + no_neighbor_sum je mesh estimate_parent_error i"
    using c5 by (cases estimate_parent_error) (simp_all add: parent_pass_sum_zero)
  have c7: "\<not> estimate_parent_error \<and> \<not> integrate_slits je \<and> \<not> integrate_boundary_sides je \<longrightarrow>
            summed_error je mesh estimate_parent_error ! i = face_sum je mesh i"
    using c5
    by (cases estimate_parent_error) (simp_all add: parent_pass_sum_zero no_neighbor_sum_zero)
  from c1 c2 c3 c4 c5 c6 c7 show ?thesis by (intro conjI)
qed

lemma jump_hanging_elems:
  "mesh_elements jump_hanging_mesh ! 0 \<in> set (mesh_elements jump_hanging_mesh)"
  "mesh_elements jump_hanging_mesh ! 1 \<in> set (mesh_elements jump_hanging_mesh)"
  "mesh_elements jump_hanging_mesh ! 2 \<in> set (mesh_elements jump_hanging_mesh)"
  "mesh_elements jump_hanging_mesh ! 3 \<in> set (mesh_elements jump_hanging_mesh)"
  by (simp_all add: jump_hanging_mesh_def)

lemma jump_hanging_max: "max_elem_id jump_hanging_mesh = 4"
  by (simp add: max_elem_id_def jump_hanging_mesh_def)

theorem jump_shared_face_integrated_once_witness:
  "count_list (integrated_faces jump_hanging_estimator jump_hanging_mesh) (2, 0, 0, 0) = 1 \<and>
   count_list (integrated_faces jump_hanging_estimator jump_hanging_mesh) (0, 1, 1, 0) = 0 \<and>
   count_list (integrated_faces jump_hanging_estimator jump_hanging_mesh) (2, 1, 3, 0) +
   count_list (integrated_faces jump_hanging_estimator jump_hanging_mesh) (3, 0, 2, 0) = 1 \<and>
   summed_error jump_hanging_estimator jump_hanging_mesh False ! 0 = 4 \<and>
   face_sum jump_hanging_estimator jump_hanging_mesh 0 = 4"
proof -
  let ?m = jump_hanging_mesh
  let ?je = jump_hanging_estimator
  let ?e0 = "mesh_elements ?m ! 0"
  let ?e1 = "mesh_elements ?m ! 1"
  let ?e2 = "mesh_elements ?m ! 2"
  let ?e3 = "mesh_elements ?m ! 3"
  have d: "distinct (map elem_id (mesh_elements ?m))"
    by (simp add: jump_hanging_mesh_def)
  have ids: "elem_id ?e0 = 0" "elem_id ?e1 = 1" "elem_id ?e2 = 2" "elem_id ?e3 = 3"
    by (simp_all add: jump_hanging_mesh_def)
  have act: "elem_active ?e0" "\<not> elem_active ?e1" "elem_active ?e2" "elem_active ?e3"
    by (simp_all add: jump_hanging_mesh_def)
  have inf: "\<not> elem_infinite ?e0" "\<not> elem_infinite ?e1" "\<not> elem_infinite ?e2" "\<not> elem_infinite ?e3"
    by (simp_all add: jump_hanging_mesh_def)
  have proc: "elem_processor_id ?e0 < mesh_n_processors ?m"
    "elem_processor_id ?e2 < mesh_n_processors ?m" "elem_processor_id ?e3 < mesh_n_processors ?m"
    by (simp_all add: jump_hanging_mesh_def)
  have lv: "elem_level ?e0 = 0" "elem_level ?e1 = 0" "elem_level ?e2 = 1" "elem_level ?e3 = 1"
    by (simp_all add: jump_hanging_mesh_def)
  have n20: "0 < n_sides ?e2" "elem_neighbors ?e2 ! 0 = Some (elem_id ?e0)"
    and n01: "1 < n_sides ?e0" "elem_neighbors ?e0 ! 1 = Some (elem_id ?e1)"
    and n23: "1 < n_sides ?e2" "elem_neighbors ?e2 ! 1 = Some (elem_id ?e3)"
    and n32: "0 < n_sides ?e3" "elem_neighbors ?e3 ! 0 = Some (elem_id ?e2)"
    by (simp_all add: jump_hanging_mesh_def n_sides_def)
  have var: "0 < n_system_vars ?je" "significant_var ?je 0"
    by (simp_all add: jump_hanging_estimator_def)
  have cfg: "\<not> integrate_slits ?je" "\<not> integrate_boundary_sides ?je"
    by (simp_all add: jump_hanging_estimator_def)
  have i: "0 < max_elem_id ?m" by (simp add: jump_hanging_max)
  have ne23: "?e2 \<noteq> ?e3" by (simp add: jump_hanging_mesh_def)
  note t20 = jump_shared_face_integrated_once [OF d jump_hanging_elems(3) jump_hanging_elems(1)
      act(3) inf(3) inf(1) proc(2) n20 var i, of False]
  note t01 = jump_shared_face_integrated_once [OF d jump_hanging_elems(1) jump_hanging_elems(2)
      act(1) inf(1) inf(2) proc(1) n01 var i, of False]
  note t23 = jump_shared_face_integrated_once [OF d jump_hanging_elems(3) jump_hanging_elems(4)
      act(3) inf(3) inf(4) proc(2) n23 var i, of False]
  from t20 have a: "count_list (integrated_faces ?je ?m) (elem_id ?e2, 0, elem_id ?e0, 0) =
           (if elem_level ?e0 < elem_level ?e2 \<or>
               (elem_level ?e0 = elem_level ?e2 \<and> elem_active ?e0 \<and> elem_id ?e2 < elem_id ?e0)
            then 1 else 0)"
    by blast
  have a': "count_list (integrated_faces ?je ?m) (2, 0, 0, 0) = 1"
    using a unfolding ids lv by simp
  from t01 have b: "\<not> elem_active ?e1 \<and> elem_level ?e1 = elem_level ?e0 \<longrightarrow>
            count_list (integrated_faces ?je ?m) (elem_id ?e0, 1, elem_id ?e1, 0) = 0"
    by blast
  have b': "count_list (integrated_faces ?je ?m) (0, 1, 1, 0) = 0"
    using b act(2) unfolding ids lv by simp
  from t23 have c: "elem_active ?e3 \<and> ?e2 \<noteq> ?e3 \<and> elem_processor_id ?e3 < mesh_n_processors ?m \<longrightarrow>
            (\<forall>n_f. n_f < n_sides ?e3 \<and> elem_neighbors ?e3 ! n_f = Some (elem_id ?e2) \<longrightarrow>
               count_list (integrated_faces ?je ?m) (elem_id ?e2, 1, elem_id ?e3, 0) +
               count_list (integrated_faces ?je ?m) (elem_id ?e3, n_f, elem_id ?e2, 0) = 1)"
    by blast
  with act(4) ne23 proc(3) n32 have
    "count_list (integrated_faces ?je ?m) (elem_id ?e2, 1, elem_id ?e3, 0) +
     count_list (integrated_faces ?je ?m) (elem_id ?e3, 0, elem_id ?e2, 0) = 1"
    by blast
  then have c': "count_list (integrated_faces ?je ?m) (2, 1, 3, 0) +
     count_list (integrated_faces ?je ?m) (3, 0, 2, 0) = 1"
    unfolding ids .
  from t20 have s: "\<not> False \<and> \<not> integrate_slits ?je \<and> \<not> integrate_boundary_sides ?je \<longrightarrow>
            summed_error ?je ?m False ! 0 = face_sum ?je ?m 0"
    by blast
  have fs: "face_sum ?je ?m 0 = 4" by code_simp
  from s cfg fs have s': "summed_error ?je ?m False ! 0 = 4" by simp
  from a' b' c' s' fs show ?thesis by (intro conjI)
qed

text \<open>
  Claim C10 as worded fails when \<open>estimate_parent_error\<close> is set. In the mesh with the
  hanging node, element 0 has one side with a neighbor. That side is integrated once by
  the loop over the sides, from the finer element 2, which adds 4 to the slot of element
  0; and the estimate on the parent 1 integrates the same side once more, as side 0 of
  the parent against element 0, and adds 16 to the slot of element 0, which ends at 20
  instead of 4.
\<close>

theorem jump_parent_pass_counterexample:
  "elem_neighbors (mesh_elements jump_hanging_mesh ! 0) = [None, Some 1] \<and>
   elem_active (mesh_elements jump_hanging_mesh ! 0) \<and>
   elem_active (mesh_elements jump_hanging_mesh ! 2) \<and>
   elem_neighbors (mesh_elements jump_hanging_mesh ! 2) = [Some 0, Some 3] \<and>
   contributions (local_loop jump_hanging_estimator jump_hanging_mesh True 0) =
     [Internal_contribution (Parent_face 0) 0 1 0 16 64,
      Internal_contribution (Face 0) 2 0 0 1 4,
      Internal_contribution (Face 1) 2 3 0 1 4] \<and>
   summed_error jump_hanging_estimator jump_hanging_mesh True = [20, 64, 2, 4] \<and>
   summed_error jump_hanging_estimator jump_hanging_mesh False = [4, 0, 2, 4]"
  by code_simp

end
